theory Spec2Isabelle
  imports Complex_Main "HOL-Library.Word" "HOL-Library.Multiset" "HOL-Library.Log_Nat"
begin

section \<open>Data model (pkg/types/types.go)\<close>

text \<open>
  Go's \<open>int64\<close> is a 64-bit word: \<open>+\<close> and \<open>-\<close> wrap, comparisons are the signed ones
  (\<open>\<le>s\<close>, \<open><s\<close>). A \<open>time.Time\<close> is the instant in nanoseconds as an unbounded
  integer; a \<open>time.Duration\<close> is an \<open>int64\<close> count of nanoseconds. A \<open>float64\<close> is the
  rational number it stands for, and every floating-point operation rounds its exact
  result to the nearest number with a significand of 53 bits, ties going to the even one.
\<close>

type_synonym int64 = "64 word"
type_synonym int32 = "32 word"
type_synonym Time = int
type_synonym Duration = "64 word"

record FileInfo =
  Path :: string
  Size :: int64
  ModTime :: Time
  IsDir :: bool
  Permission :: "32 word"

text \<open>The field \<open>Path\<close> of \<open>FileGrowth\<close> is named \<open>GrowthPath\<close>: a record field name
  is global in a theory.\<close>

record FileGrowth =
  GrowthPath :: string
  InitialSize :: int64
  FinalSize :: int64
  GrowthBytes :: int64
  GrowthRate :: rat
  Interval :: Duration

record Snapshot =
  Timestamp :: Time
  Files :: "string \<rightharpoonup> FileInfo"
  TotalSize :: int64
  FileCount :: int64

section \<open>Library operations the diff uses\<close>

text \<open>\<open>time.Second\<close>, and \<open>Time.Sub\<close>, which saturates at the ends of the
  \<open>Duration\<close> range instead of wrapping.\<close>

definition Second :: Duration where
  "Second = 1000000000"

definition time_Sub :: "Time \<Rightarrow> Time \<Rightarrow> Duration" where
  "time_Sub t u = word_of_int (max (- (2 ^ 63)) (min (2 ^ 63 - 1) (t - u)))"

subsection \<open>Floating-point arithmetic\<close>

text \<open>
  Rounding to \<open>float64\<close>: \<open>exponent x\<close> is the integer \<open>e\<close> with \<open>2 ^ e \<le> |x| < 2 ^ (e + 1)\<close>,
  the representable numbers around \<open>x\<close> are the multiples of \<open>2 ^ (e - 52)\<close>, and \<open>x\<close> goes
  to the nearest of them, to the even one when it lies half-way between two. The numbers
  of this program stay far from the largest and the smallest \<open>float64\<close>, so neither
  overflow nor gradual underflow is modelled.
\<close>

definition round_even :: "rat \<Rightarrow> int" where
  "round_even x =
     (let n = \<lfloor>x\<rfloor>; r = x - of_int n
      in if r < 1 / 2 then n else if 1 / 2 < r then n + 1
         else if even n then n else n + 1)"

definition exponent :: "rat \<Rightarrow> int" where
  "exponent x =
     (if 1 \<le> \<bar>x\<bar> then bitlen \<lfloor>\<bar>x\<bar>\<rfloor> - 1 else - bitlen (\<lceil>1 / \<bar>x\<bar>\<rceil> - 1))"

definition pow2 :: "int \<Rightarrow> rat" where
  "pow2 e = (if 0 \<le> e then 2 ^ nat e else 1 / 2 ^ nat (- e))"

definition round64 :: "rat \<Rightarrow> rat" where
  "round64 x =
     (if x = 0 then 0
      else let ulp = pow2 (exponent x - 52) in of_int (round_even (x / ulp)) * ulp)"

text \<open>The conversion \<open>float64(x)\<close> of an \<open>int64\<close>, and the sum and the quotient of two
  \<open>float64\<close>.\<close>

definition float64 :: "int64 \<Rightarrow> rat" where
  "float64 x = round64 (of_int (sint x))"

definition fadd :: "rat \<Rightarrow> rat \<Rightarrow> rat" where
  "fadd a b = round64 (a + b)"

definition fdiv :: "rat \<Rightarrow> rat \<Rightarrow> rat" where
  "fdiv a b = round64 (a / b)"

text \<open>Go's integer quotient and remainder truncate towards zero.\<close>

definition quo :: "int \<Rightarrow> int \<Rightarrow> int" where
  "quo a b = sgn a * sgn b * (\<bar>a\<bar> div \<bar>b\<bar>)"

definition rem :: "int \<Rightarrow> int \<Rightarrow> int" where
  "rem a b = a - b * quo a b"

text \<open>\<open>Duration.Seconds\<close>: \<open>sec := d / Second; nsec := d % Second;
  return float64(sec) + float64(nsec)/1e9\<close>.\<close>

definition Seconds :: "Duration \<Rightarrow> rat" where
  "Seconds d =
     (let sec = quo (sint d) 1000000000; nsec = rem (sint d) 1000000000
      in fadd (round64 (of_int sec)) (fdiv (round64 (of_int nsec)) 1000000000))"

section \<open>The growth diff\<close>

text \<open>Both diff functions start with the same four lines computing the interval.\<close>

definition growth_interval :: "Snapshot \<Rightarrow> Snapshot \<Rightarrow> Duration" where
  "growth_interval snap1 snap2 =
     (let interval = time_Sub (Timestamp snap2) (Timestamp snap1)
      in if interval \<le>s 0 then Second else interval)"

text \<open>
  \<open>for path, info2 := range snap2.Files\<close> visits every key of the map once, in an order
  the runtime chooses afresh at each run. The order is the argument \<open>order\<close> of the loop;
  \<open>range_order m order\<close> says that \<open>order\<close> is such an enumeration of the map \<open>m\<close>.
\<close>

definition range_order :: "('k \<rightharpoonup> 'v) \<Rightarrow> 'k list \<Rightarrow> bool" where
  "range_order m order \<longleftrightarrow> distinct order \<and> set order = dom m"

text \<open>One iteration of the loop of \<open>Scanner.CalculateGrowth\<close> (scanner.go), on the slice
  \<open>growing\<close>.\<close>

definition CalculateGrowth_step ::
  "int64 \<Rightarrow> Duration \<Rightarrow> (string \<rightharpoonup> FileInfo) \<Rightarrow> string \<Rightarrow> FileInfo \<Rightarrow> FileGrowth list \<Rightarrow> FileGrowth list"
where
  "CalculateGrowth_step threshold interval files1 path info2 growing =
     (case files1 path of
        None \<Rightarrow>
          if threshold \<le>s Size info2
          then growing @ [\<lparr>GrowthPath = path, InitialSize = 0, FinalSize = Size info2,
                 GrowthBytes = Size info2,
                 GrowthRate = fdiv (float64 (Size info2)) (Seconds interval),
                 Interval = interval\<rparr>]
          else growing
      | Some info1 \<Rightarrow>
          let growth = Size info2 - Size info1
          in if threshold \<le>s growth
             then growing @ [\<lparr>GrowthPath = path, InitialSize = Size info1, FinalSize = Size info2,
                    GrowthBytes = growth,
                    GrowthRate = fdiv (float64 growth) (Seconds interval),
                    Interval = interval\<rparr>]
             else growing)"

fun CalculateGrowth_loop ::
  "int64 \<Rightarrow> Duration \<Rightarrow> (string \<rightharpoonup> FileInfo) \<Rightarrow> (string \<rightharpoonup> FileInfo) \<Rightarrow> string list \<Rightarrow> FileGrowth list \<Rightarrow> FileGrowth list"
where
  "CalculateGrowth_loop threshold interval files1 files2 [] growing = growing"
| "CalculateGrowth_loop threshold interval files1 files2 (path # rest) growing =
     (case files2 path of
        None \<Rightarrow> CalculateGrowth_loop threshold interval files1 files2 rest growing
      | Some info2 \<Rightarrow>
          CalculateGrowth_loop threshold interval files1 files2 rest
            (CalculateGrowth_step threshold interval files1 path info2 growing))"

text \<open>The comparison handed to \<open>sort.Slice\<close>.\<close>

definition less_rate :: "FileGrowth \<Rightarrow> FileGrowth \<Rightarrow> bool" where
  "less_rate a b \<longleftrightarrow> GrowthRate a > GrowthRate b"

text \<open>
  \<open>sort.Slice\<close> belongs to the Go library; it is the parameter \<open>sort_Slice\<close> of the model.
  Its documented contract is \<open>sort_contract\<close>: the result is a rearrangement of the slice
  in which no element is \<open>less\<close> than one before it; the sort is not promised to be stable.
\<close>

definition sort_contract ::
  "('a \<Rightarrow> 'a \<Rightarrow> bool) \<Rightarrow> ('a list \<Rightarrow> 'a list) \<Rightarrow> bool" where
  "sort_contract lessf srt \<longleftrightarrow>
     (\<forall>xs. mset (srt xs) = mset xs \<and> sorted_wrt (\<lambda>a b. \<not> lessf b a) (srt xs))"

record Config =
  Paths :: "string list"
  ScanInterval :: Duration
  ThresholdBytes :: int64
  WorkerCount :: int64
  MaxDepth :: int64
  FollowSymlinks :: bool
  ExcludePatterns :: "string list"

definition CalculateGrowth ::
  "((FileGrowth \<Rightarrow> FileGrowth \<Rightarrow> bool) \<Rightarrow> FileGrowth list \<Rightarrow> FileGrowth list) \<Rightarrow>
   Config \<Rightarrow> Snapshot \<Rightarrow> Snapshot \<Rightarrow> string list \<Rightarrow> FileGrowth list"
where
  "CalculateGrowth sort_Slice config snap1 snap2 order =
     (let interval = growth_interval snap1 snap2;
          growing = CalculateGrowth_loop (ThresholdBytes config) interval
                      (Files snap1) (Files snap2) order []
      in sort_Slice less_rate growing)"

text \<open>The package-level \<open>CompareSnapshots\<close> (snapshot store file): the loop skips
  directory entries, its body is otherwise that of \<open>CalculateGrowth\<close> line for line,
  with \<open>thresholdBytes\<close> for \<open>s.config.ThresholdBytes\<close>, and the result is returned
  as the loop leaves it.\<close>

fun CompareSnapshots_loop ::
  "int64 \<Rightarrow> Duration \<Rightarrow> (string \<rightharpoonup> FileInfo) \<Rightarrow> (string \<rightharpoonup> FileInfo) \<Rightarrow> string list \<Rightarrow> FileGrowth list \<Rightarrow> FileGrowth list"
where
  "CompareSnapshots_loop thresholdBytes interval files1 files2 [] growing = growing"
| "CompareSnapshots_loop thresholdBytes interval files1 files2 (path # rest) growing =
     (case files2 path of
        None \<Rightarrow> CompareSnapshots_loop thresholdBytes interval files1 files2 rest growing
      | Some info2 \<Rightarrow>
          if IsDir info2
          then CompareSnapshots_loop thresholdBytes interval files1 files2 rest growing
          else CompareSnapshots_loop thresholdBytes interval files1 files2 rest
                 (CalculateGrowth_step thresholdBytes interval files1 path info2 growing))"

definition CompareSnapshots ::
  "Snapshot \<Rightarrow> Snapshot \<Rightarrow> int64 \<Rightarrow> string list \<Rightarrow> FileGrowth list" where
  "CompareSnapshots snap1 snap2 thresholdBytes order =
     CompareSnapshots_loop thresholdBytes (growth_interval snap1 snap2)
       (Files snap1) (Files snap2) order []"

text \<open>
  The insertion sort that \<open>sort.Slice\<close> runs on a slice of fewer than 12 elements
  (\<open>insertionSortLessFunc\<close>): each element moves left while it is \<open>less\<close> than its left
  neighbour. \<open>insert_left\<close> works on the sorted prefix held in reverse.
\<close>

fun insert_left :: "('a \<Rightarrow> 'a \<Rightarrow> bool) \<Rightarrow> 'a \<Rightarrow> 'a list \<Rightarrow> 'a list" where
  "insert_left lessf x [] = [x]"
| "insert_left lessf x (y # ys) =
     (if lessf x y then y # insert_left lessf x ys else x # y # ys)"

definition insertionSort :: "('a \<Rightarrow> 'a \<Rightarrow> bool) \<Rightarrow> 'a list \<Rightarrow> 'a list" where
  "insertionSort lessf xs = rev (foldl (\<lambda>prefix x. insert_left lessf x prefix) [] xs)"

text \<open>What one key of the later map adds to \<open>growing\<close>, in each of the two loops.\<close>

definition growth_entries ::
  "int64 \<Rightarrow> Duration \<Rightarrow> (string \<rightharpoonup> FileInfo) \<Rightarrow> (string \<rightharpoonup> FileInfo) \<Rightarrow> string \<Rightarrow> FileGrowth list" where
  "growth_entries threshold interval files1 files2 path =
     (case files2 path of
        None \<Rightarrow> []
      | Some info2 \<Rightarrow> CalculateGrowth_step threshold interval files1 path info2 [])"

definition compare_entries ::
  "int64 \<Rightarrow> Duration \<Rightarrow> (string \<rightharpoonup> FileInfo) \<Rightarrow> (string \<rightharpoonup> FileInfo) \<Rightarrow> string \<Rightarrow> FileGrowth list" where
  "compare_entries threshold interval files1 files2 path =
     (case files2 path of
        None \<Rightarrow> []
      | Some info2 \<Rightarrow>
          if IsDir info2 then []
          else CalculateGrowth_step threshold interval files1 path info2 [])"

section \<open>Process termination (internal/action)\<close>

text \<open>
  The operating system as \<open>Kill\<close> sees it. Time is counted in nanoseconds from the call of
  \<open>Kill\<close>; a call takes no time and a sleep takes exactly its duration.
  \<open>FindProcess os pid t\<close> tells whether \<open>os.FindProcess\<close> returns without error at
  time \<open>t\<close>, \<open>Signal os pid sig t\<close> is the error of \<open>proc.Signal(sig)\<close> at time \<open>t\<close>
  (\<open>None\<close> for \<open>nil\<close>). When the poller's message and the timer are ready at the same
  instant, \<open>select\<close> takes either; \<open>select_done\<close> is its choice.
\<close>

datatype signal = SIGTERM | SIGKILL | Signal0

datatype signal_error = ErrProcessDone | OtherSignalError

record OS =
  FindProcess :: "int32 \<Rightarrow> nat \<Rightarrow> bool"
  Signal :: "int32 \<Rightarrow> signal \<Rightarrow> nat \<Rightarrow> signal_error option"
  select_done :: bool

datatype kill_error =
    ProcessNotFound int32
  | FailedSIGTERM signal_error
  | FailedSIGKILL signal_error
  | StillRunning int32

record Killer =
  Timeout :: Duration

definition processExists :: "OS \<Rightarrow> int32 \<Rightarrow> nat \<Rightarrow> bool" where
  "processExists os pid t =
     (if \<not> FindProcess os pid t then False
      else Signal os pid Signal0 t = None)"

text \<open>The instant at which \<open>time.After(k.Timeout)\<close> fires: at once when the timeout is
  not positive.\<close>

definition timer :: "Killer \<Rightarrow> nat" where
  "timer k = (if Timeout k \<le>s 0 then 0 else nat (sint (Timeout k)))"

text \<open>
  The polling goroutine probes at once and then every 100 milliseconds. \<open>poll_done\<close> gives
  the instant at which it sends on \<open>done\<close>, when that is no later than the deadline;
  what it does after the deadline no longer reaches \<open>Kill\<close>.
\<close>

function poll_done :: "OS \<Rightarrow> int32 \<Rightarrow> nat \<Rightarrow> nat \<Rightarrow> nat option" where
  "poll_done os pid deadline t =
     (if deadline < t then None
      else if \<not> processExists os pid t then Some t
      else poll_done os pid deadline (t + 100000000))"
  by pat_completeness auto
termination
  by (relation "measure (\<lambda>(os, pid, deadline, t). Suc deadline - t)") auto

declare poll_done.simps [simp del]

text \<open>The branch of the \<open>select\<close> taken when the timer fires, at time \<open>deadline\<close>.
  The second component lists the signals \<open>Kill\<close> has sent, each with its instant.\<close>

definition Kill_timeout ::
  "OS \<Rightarrow> int32 \<Rightarrow> nat \<Rightarrow> kill_error option \<times> (nat \<times> signal) list" where
  "Kill_timeout os pid deadline =
     (let sent = [(0, SIGTERM), (deadline, SIGKILL)]
      in case Signal os pid SIGKILL deadline of
           Some ErrProcessDone \<Rightarrow> (None, sent)
         | Some e \<Rightarrow> (Some (FailedSIGKILL e), sent)
         | None \<Rightarrow>
             if processExists os pid (deadline + 500000000)
             then (Some (StillRunning pid), sent)
             else (None, sent))"

definition Kill ::
  "Killer \<Rightarrow> OS \<Rightarrow> int32 \<Rightarrow> kill_error option \<times> (nat \<times> signal) list" where
  "Kill k os pid =
     (if \<not> FindProcess os pid 0 then (Some (ProcessNotFound pid), [])
      else case Signal os pid SIGTERM 0 of
             Some ErrProcessDone \<Rightarrow> (None, [(0, SIGTERM)])
           | Some e \<Rightarrow> (Some (FailedSIGTERM e), [(0, SIGTERM)])
           | None \<Rightarrow>
               (case poll_done os pid (timer k) 0 of
                  Some t \<Rightarrow>
                    if t < timer k \<or> select_done os then (None, [(0, SIGTERM)])
                    else Kill_timeout os pid (timer k)
                | None \<Rightarrow> Kill_timeout os pid (timer k)))"

section \<open>Service resolution (internal/resolver/resolver.go)\<close>

record ServiceInfo =
  Unit :: string
  Status :: string
  MainPID :: int32
  StartTime :: Time
  Description :: string

text \<open>
  What the resolver reads from outside: whether the D-Bus connection exists
  (\<open>r.conn != nil\<close>), the answers of the service manager (\<open>None\<close> for a failed call),
  the content of \<open>/proc/<pid>/comm\<close> (\<open>None\<close> when the read fails), and the result of
  \<open>getParentPID\<close>, which reads and parses \<open>/proc/<pid>/stat\<close> (\<open>None\<close> for an error).
  The last field is the library's lower-casing of a string that is not ASCII.
\<close>

record Proc =
  conn :: bool
  GetUnitByPID :: "int32 \<Rightarrow> string option"
  Get_Id :: "string \<Rightarrow> string option"
  Get_ActiveState :: "string \<Rightarrow> string option"
  Get_MainPID :: "string \<Rightarrow> 32 word option"
  Get_Description :: "string \<Rightarrow> string option"
  ReadFile_comm :: "int32 \<Rightarrow> string option"
  getParentPID :: "int32 \<Rightarrow> int32 option"
  Map_ToLower :: "string \<Rightarrow> string"

datatype resolve_error = CouldNotResolve int32

datatype tier = Systemd | ProcessTree

text \<open>
  \<open>strings.TrimSpace\<close> removes, at both ends, every code point that \<open>unicode.IsSpace\<close>
  accepts. A Go string is a sequence of bytes holding UTF-8; \<open>space_encodings\<close> lists the
  UTF-8 encodings of those code points (U+0009 to U+000D, U+0020, U+0085, U+00A0, U+1680,
  U+2000 to U+200A, U+2028, U+2029, U+202F, U+205F, U+3000). A string begins (ends) with
  a white-space code point exactly when it begins (ends) with one of these byte sequences.
\<close>

definition space_encodings :: "string list" where
  "space_encodings =
     [[CHR 0x09], [CHR 0x0A], [CHR 0x0B], [CHR 0x0C], [CHR 0x0D], [CHR 0x20],
      [CHR 0xC2, CHR 0x85], [CHR 0xC2, CHR 0xA0],
      [CHR 0xE1, CHR 0x9A, CHR 0x80],
      [CHR 0xE2, CHR 0x80, CHR 0x80], [CHR 0xE2, CHR 0x80, CHR 0x81],
      [CHR 0xE2, CHR 0x80, CHR 0x82], [CHR 0xE2, CHR 0x80, CHR 0x83],
      [CHR 0xE2, CHR 0x80, CHR 0x84], [CHR 0xE2, CHR 0x80, CHR 0x85],
      [CHR 0xE2, CHR 0x80, CHR 0x86], [CHR 0xE2, CHR 0x80, CHR 0x87],
      [CHR 0xE2, CHR 0x80, CHR 0x88], [CHR 0xE2, CHR 0x80, CHR 0x89],
      [CHR 0xE2, CHR 0x80, CHR 0x8A],
      [CHR 0xE2, CHR 0x80, CHR 0xA8], [CHR 0xE2, CHR 0x80, CHR 0xA9],
      [CHR 0xE2, CHR 0x80, CHR 0xAF], [CHR 0xE2, CHR 0x81, CHR 0x9F],
      [CHR 0xE3, CHR 0x80, CHR 0x80]]"

fun HasPrefix :: "string \<Rightarrow> string \<Rightarrow> bool" where
  "HasPrefix s [] = True"
| "HasPrefix [] (c # sub) = False"
| "HasPrefix (d # s) (c # sub) = (d = c \<and> HasPrefix s sub)"

text \<open>\<open>trim_prefix encodings n s\<close> removes from the front of \<open>s\<close> up to \<open>n\<close> of the given
  byte sequences; \<open>n = length s\<close> removes them all.\<close>

fun trim_prefix :: "string list \<Rightarrow> nat \<Rightarrow> string \<Rightarrow> string" where
  "trim_prefix encodings 0 s = s"
| "trim_prefix encodings (Suc n) s =
     (case find (HasPrefix s) encodings of
        None \<Rightarrow> s
      | Some w \<Rightarrow> trim_prefix encodings n (drop (length w) s))"

definition TrimLeft :: "string \<Rightarrow> string" where
  "TrimLeft s = trim_prefix space_encodings (length s) s"

definition TrimRight :: "string \<Rightarrow> string" where
  "TrimRight s = rev (trim_prefix (map rev space_encodings) (length s) (rev s))"

definition TrimSpace :: "string \<Rightarrow> string" where
  "TrimSpace s = TrimRight (TrimLeft s)"

text \<open>
  \<open>strings.ToLower\<close>: a string of ASCII bytes has its letters \<open>A\<close> to \<open>Z\<close> replaced; any
  other string goes through \<open>strings.Map(unicode.ToLower, s)\<close>, which rests on the case
  tables of Unicode and is the parameter \<open>unicode_lower\<close>, the field \<open>Map_ToLower\<close> of
  the record above.
\<close>

definition isASCII :: "string \<Rightarrow> bool" where
  "isASCII s \<longleftrightarrow> list_all (\<lambda>c. (of_char c :: nat) < 128) s"

definition toLower :: "char \<Rightarrow> char" where
  "toLower c =
     (if 65 \<le> (of_char c :: nat) \<and> (of_char c :: nat) \<le> 90
      then char_of (of_char c + 32 :: nat) else c)"

definition ToLower :: "(string \<Rightarrow> string) \<Rightarrow> string \<Rightarrow> string" where
  "ToLower unicode_lower s = (if isASCII s then map toLower s else unicode_lower s)"

text \<open>\<open>strings.Contains\<close> compares bytes.\<close>

fun Contains :: "string \<Rightarrow> string \<Rightarrow> bool" where
  "Contains [] sub = (sub = [])"
| "Contains (d # s) sub = (HasPrefix (d # s) sub \<or> Contains s sub)"

definition serviceNames :: "string list" where
  "serviceNames =
     [''apache2'', ''nginx'', ''mysql'', ''postgres'', ''redis'',
      ''docker'', ''containerd'', ''tomcat'', ''java'', ''node'',
      ''python'', ''php'', ''ruby'', ''mongod'', ''elasticsearch'']"

fun match_serviceNames :: "Proc \<Rightarrow> string \<Rightarrow> string list \<Rightarrow> string" where
  "match_serviceNames r comm [] = []"
| "match_serviceNames r comm (svc # rest) =
     (if Contains (ToLower (Map_ToLower r) comm) svc then comm @ ''.service''
      else match_serviceNames r comm rest)"

definition getServiceNameFromComm :: "Proc \<Rightarrow> int32 \<Rightarrow> string" where
  "getServiceNameFromComm r pid =
     (case ReadFile_comm r pid of
        None \<Rightarrow> []
      | Some data \<Rightarrow> match_serviceNames r (TrimSpace data) serviceNames)"

text \<open>The loop of \<open>resolveFromProcessTree\<close>. Nothing bounds the number of its rounds: on
  a parent relation with a cycle it runs forever, which is the value \<open>None\<close>.\<close>

partial_function (option) resolveFromProcessTree_loop ::
  "Proc \<Rightarrow> int32 \<Rightarrow> int32 \<Rightarrow> (resolve_error + ServiceInfo) option" where
  "resolveFromProcessTree_loop r pid currentPID =
     (if 1 <s currentPID then
        (let serviceName = getServiceNameFromComm r currentPID
         in if serviceName \<noteq> []
            then Some (Inr \<lparr>Unit = serviceName, Status = ''unknown (fallback)'',
                          MainPID = currentPID, StartTime = 0, Description = []\<rparr>)
            else (case getParentPID r currentPID of
                    None \<Rightarrow> Some (Inl (CouldNotResolve pid))
                  | Some parentPID \<Rightarrow>
                      if parentPID \<le>s 1 then Some (Inl (CouldNotResolve pid))
                      else resolveFromProcessTree_loop r pid parentPID))
      else Some (Inl (CouldNotResolve pid)))"

declare resolveFromProcessTree_loop.simps [code]

definition resolveFromProcessTree ::
  "Proc \<Rightarrow> int32 \<Rightarrow> (resolve_error + ServiceInfo) option" where
  "resolveFromProcessTree r pid = resolveFromProcessTree_loop r pid pid"

definition resolveWithSystemd :: "Proc \<Rightarrow> int32 \<Rightarrow> ServiceInfo option" where
  "resolveWithSystemd r pid =
     (case GetUnitByPID r pid of
        None \<Rightarrow> None
      | Some unitPath \<Rightarrow>
          Some \<lparr>Unit = (case Get_Id r unitPath of None \<Rightarrow> unitPath | Some unitName \<Rightarrow> unitName),
                Status = (case Get_ActiveState r unitPath of None \<Rightarrow> [] | Some st \<Rightarrow> st),
                MainPID = (case Get_MainPID r unitPath of None \<Rightarrow> 0 | Some m \<Rightarrow> m),
                StartTime = 0,
                Description = (case Get_Description r unitPath of None \<Rightarrow> [] | Some d \<Rightarrow> d)\<rparr>)"

text \<open>\<open>ResolveService\<close>, with the list of the tiers it has called beside its result.\<close>

definition ResolveService ::
  "Proc \<Rightarrow> int32 \<Rightarrow> ((resolve_error + ServiceInfo) \<times> tier list) option" where
  "ResolveService r pid =
     (if conn r then
        (case resolveWithSystemd r pid of
           Some info \<Rightarrow> Some (Inr info, [Systemd])
         | None \<Rightarrow>
             map_option (\<lambda>res. (res, [Systemd, ProcessTree])) (resolveFromProcessTree r pid))
      else map_option (\<lambda>res. (res, [ProcessTree])) (resolveFromProcessTree r pid))"

text \<open>The outcome of tier 1, in the words of the error taxonomy: \<open>Unavailable\<close> when there
  is no connection to the service manager, \<open>NotFound\<close> when the manager's query for the
  unit of the PID fails.\<close>

datatype tier1_outcome = Resolved | Unavailable | NotFound

definition tier1 :: "Proc \<Rightarrow> int32 \<Rightarrow> tier1_outcome" where
  "tier1 r pid =
     (if \<not> conn r then Unavailable
      else if GetUnitByPID r pid = None then NotFound else Resolved)"

text \<open>\<open>chain_ends r n p\<close>: the walk from \<open>p\<close> along the parents stops within \<open>n\<close> further
  rounds of the loop.\<close>

fun chain_ends :: "Proc \<Rightarrow> nat \<Rightarrow> int32 \<Rightarrow> bool" where
  "chain_ends r 0 p =
     (p \<le>s 1 \<or> getServiceNameFromComm r p \<noteq> [] \<or>
      (case getParentPID r p of None \<Rightarrow> True | Some q \<Rightarrow> q \<le>s 1))"
| "chain_ends r (Suc n) p =
     (p \<le>s 1 \<or> getServiceNameFromComm r p \<noteq> [] \<or>
      (case getParentPID r p of None \<Rightarrow> True | Some q \<Rightarrow> q \<le>s 1 \<or> chain_ends r n q))"

section \<open>Taking a snapshot (internal/scanner/scanner.go)\<close>

text \<open>
  The file system as the scanner reads it: \<open>ReadDir\<close> lists a directory (\<open>None\<close> for an
  error), \<open>Stat\<close> is \<open>os.Stat\<close>, which follows symbolic links (\<open>None\<close> for an error),
  and \<open>Match pattern name\<close> is the boolean that \<open>filepath.Match\<close> returns.
\<close>

record DirEntry =
  Name :: string
  IsSymlink :: bool
  EntryIsDir :: bool

record FileStat =
  stat_Size :: int64
  stat_ModTime :: Time
  stat_IsDir :: bool
  stat_Perm :: "32 word"

record FS =
  ReadDir :: "string \<Rightarrow> DirEntry list option"
  Stat :: "string \<Rightarrow> FileStat option"
  Match :: "string \<Rightarrow> string \<Rightarrow> bool"

text \<open>\<open>New\<close> replaces a worker count that is not positive by 4.\<close>

definition New :: "Config \<Rightarrow> Config" where
  "New config = (if WorkerCount config \<le>s 0 then config\<lparr>WorkerCount := 4\<rparr> else config)"

fun isExcluded_loop :: "FS \<Rightarrow> string list \<Rightarrow> string \<Rightarrow> bool" where
  "isExcluded_loop fs [] name = False"
| "isExcluded_loop fs (pattern # rest) name =
     (if Match fs pattern name then True else isExcluded_loop fs rest name)"

definition isExcluded :: "Config \<Rightarrow> FS \<Rightarrow> string \<Rightarrow> bool" where
  "isExcluded s fs name = isExcluded_loop fs (ExcludePatterns s) name"

text \<open>
  \<open>filepath.Join\<close> on Unix: the non-empty elements are joined by a slash and the result
  is cleaned. \<open>filepath.Clean\<close> drops empty elements and \<open>.\<close>, lets \<open>..\<close> remove the
  element before it (at the root it is dropped, at the start of a relative path it is
  kept), and returns \<open>.\<close> for an empty result.
\<close>

fun split_slash :: "string \<Rightarrow> string \<Rightarrow> string list" where
  "split_slash [] element = [rev element]"
| "split_slash (c # s) element =
     (if c = CHR ''/'' then rev element # split_slash s []
      else split_slash s (c # element))"

fun clean_elements :: "bool \<Rightarrow> string list \<Rightarrow> string list \<Rightarrow> string list" where
  "clean_elements rooted [] out = rev out"
| "clean_elements rooted (e # rest) out =
     (if e = [] \<or> e = ''.'' then clean_elements rooted rest out
      else if e = ''..'' then
        (case out of
           [] \<Rightarrow> clean_elements rooted rest (if rooted then [] else [''..''])
         | previous # below \<Rightarrow>
             if previous = ''..'' then clean_elements rooted rest (''..'' # out)
             else clean_elements rooted rest below)
      else clean_elements rooted rest (e # out))"

fun join_slash :: "string list \<Rightarrow> string" where
  "join_slash [] = []"
| "join_slash [e] = e"
| "join_slash (e # rest) = e @ ''/'' @ join_slash rest"

definition Clean :: "string \<Rightarrow> string" where
  "Clean path =
     (if path = [] then ''.''
      else let rooted = (hd path = CHR ''/'');
               cleaned = join_slash (clean_elements rooted (split_slash path []) [])
           in if rooted then ''/'' @ cleaned
              else if cleaned = [] then ''.'' else cleaned)"

definition Join :: "string \<Rightarrow> string \<Rightarrow> string" where
  "Join path name =
     (if path \<noteq> [] then Clean (path @ ''/'' @ name)
      else if name \<noteq> [] then Clean name else [])"

definition statFile :: "FS \<Rightarrow> string \<Rightarrow> FileInfo option" where
  "statFile fs path =
     (case Stat fs path of
        None \<Rightarrow> None
      | Some info \<Rightarrow>
          Some \<lparr>Path = path, Size = stat_Size info, ModTime = stat_ModTime info,
                IsDir = stat_IsDir info, Permission = stat_Perm info\<rparr>)"

text \<open>
  \<open>walkDirectory\<close> with a context that is never cancelled; the result is the list of the
  paths sent to \<open>fileChan\<close>, in the order of sending. With \<open>MaxDepth \<le> 0\<close> nothing bounds
  the recursion, so the model counts the nesting of calls down from \<open>fuel\<close> and returns
  \<open>None\<close> when it is used up.
\<close>

fun walkDirectory :: "nat \<Rightarrow> Config \<Rightarrow> FS \<Rightarrow> string \<Rightarrow> int64 \<Rightarrow> string list option"
  and walkEntries :: "nat \<Rightarrow> Config \<Rightarrow> FS \<Rightarrow> string \<Rightarrow> int64 \<Rightarrow> DirEntry list \<Rightarrow> string list option"
where
  "walkDirectory 0 s fs path depth = None"
| "walkDirectory (Suc fuel) s fs path depth =
     (if 0 <s MaxDepth s \<and> MaxDepth s <s depth then Some []
      else case ReadDir fs path of
             None \<Rightarrow> Some []
           | Some entries \<Rightarrow> walkEntries fuel s fs path depth entries)"
| "walkEntries fuel s fs path depth [] = Some []"
| "walkEntries fuel s fs path depth (entry # rest) =
     (let fullPath = Join path (Name entry)
      in if IsSymlink entry \<and> \<not> FollowSymlinks s then walkEntries fuel s fs path depth rest
         else if isExcluded s fs (Name entry) then walkEntries fuel s fs path depth rest
         else if EntryIsDir entry then
           (case walkDirectory fuel s fs fullPath (depth + 1) of
              None \<Rightarrow> None
            | Some below \<Rightarrow> map_option ((@) below) (walkEntries fuel s fs path depth rest))
         else map_option ((#) fullPath) (walkEntries fuel s fs path depth rest))"

text \<open>The producer goroutine: every configured path in turn.\<close>

fun walkPaths :: "nat \<Rightarrow> Config \<Rightarrow> FS \<Rightarrow> string list \<Rightarrow> string list option" where
  "walkPaths fuel s fs [] = Some []"
| "walkPaths fuel s fs (basePath # rest) =
     (case walkDirectory fuel s fs basePath 0 of
        None \<Rightarrow> None
      | Some found \<Rightarrow> map_option ((@) found) (walkPaths fuel s fs rest))"

text \<open>What a worker sends to \<open>resultChan\<close> for the paths it receives: a path whose
  \<open>statFile\<close> fails is skipped.\<close>

fun worker :: "FS \<Rightarrow> string list \<Rightarrow> FileInfo list" where
  "worker fs [] = []"
| "worker fs (path # rest) =
     (case statFile fs path of
        None \<Rightarrow> worker fs rest
      | Some info \<Rightarrow> info # worker fs rest)"

text \<open>The loop over \<open>resultChan\<close> that fills the snapshot.\<close>

fun collect :: "FileInfo list \<Rightarrow> Snapshot \<Rightarrow> Snapshot" where
  "collect [] snapshot = snapshot"
| "collect (info # rest) snapshot =
     collect rest
       (let stored = snapshot\<lparr>Files := (Files snapshot)(Path info \<mapsto> info)\<rparr>
        in if \<not> IsDir info
           then stored\<lparr>TotalSize := TotalSize stored + Size info,
                       FileCount := FileCount stored + 1\<rparr>
           else stored)"

text \<open>
  \<open>TakeSnapshot\<close> at the instant \<open>now\<close>. The workers run concurrently; \<open>arrival\<close>
  rearranges their results into the order in which they reach \<open>resultChan\<close> (the identity
  when there is one worker). With no worker at all \<open>resultChan\<close> is closed at once and the
  snapshot stays empty.
\<close>

definition TakeSnapshot ::
  "nat \<Rightarrow> Config \<Rightarrow> FS \<Rightarrow> Time \<Rightarrow> (FileInfo list \<Rightarrow> FileInfo list) \<Rightarrow> Snapshot option" where
  "TakeSnapshot fuel s fs now arrival =
     (let snapshot = \<lparr>Timestamp = now, Files = Map.empty, TotalSize = 0, FileCount = 0\<rparr>
      in if WorkerCount s \<le>s 0 then Some snapshot
         else case walkPaths fuel s fs (Paths s) of
                None \<Rightarrow> None
              | Some paths \<Rightarrow> Some (collect (arrival (worker fs paths)) snapshot))"

text \<open>The consistency of a snapshot in the words of the claim, for a list \<open>keys\<close> that
  enumerates the keys of \<open>Files\<close>.\<close>

definition regular_files :: "Snapshot \<Rightarrow> string list \<Rightarrow> FileInfo list" where
  "regular_files snap keys =
     filter (\<lambda>info. \<not> IsDir info) (List.map_filter (Files snap) keys)"

definition snapshot_consistent :: "Snapshot \<Rightarrow> string list \<Rightarrow> bool" where
  "snapshot_consistent snap keys \<longleftrightarrow>
     TotalSize snap = sum_list (map Size (regular_files snap keys)) \<and>
     FileCount snap = of_nat (length (regular_files snap keys)) \<and>
     list_all (\<lambda>k. case Files snap k of None \<Rightarrow> True | Some info \<Rightarrow> Path info = k) keys"

text \<open>
  One round of the loop of \<open>resolveFromProcessTree\<close> that goes on: the process \<open>p\<close> is
  above 1 and matches no name of the catalogue, and its parent \<open>q\<close> is read and is above 1.
  The processes the loop visits from \<open>p\<close> are those that \<open>(parent_step r)\<^sup>*\<^sup>*\<close> reaches.
\<close>

definition parent_step :: "Proc \<Rightarrow> int32 \<Rightarrow> int32 \<Rightarrow> bool" where
  "parent_step r p q \<longleftrightarrow>
     1 <s p \<and> getServiceNameFromComm r p = [] \<and> getParentPID r p = Some q \<and> \<not> q \<le>s 1"

text \<open>What the loop of \<open>resolveFromProcessTree\<close>, started at \<open>start\<close> for the request
  \<open>pid\<close>, returns when it returns.\<close>

definition tree_result :: "Proc \<Rightarrow> int32 \<Rightarrow> int32 \<Rightarrow> resolve_error + ServiceInfo \<Rightarrow> bool" where
  "tree_result r pid start res \<longleftrightarrow>
     (case res of
        Inl e \<Rightarrow> e = CouldNotResolve pid
      | Inr info \<Rightarrow>
          Status info = ''unknown (fallback)'' \<and>
          (parent_step r)\<^sup>*\<^sup>* start (MainPID info) \<and> 1 <s MainPID info \<and>
          Unit info = getServiceNameFromComm r (MainPID info) \<and> Unit info \<noteq> [])"

text \<open>
  A PID whose process has exited, on Unix: \<open>os.FindProcess\<close> succeeds whatever the PID,
  and every signal sent to the PID, the null signal of the existence probe among them,
  reports \<open>os.ErrProcessDone\<close>.
\<close>

definition exited :: "OS \<Rightarrow> int32 \<Rightarrow> bool" where
  "exited os pid \<longleftrightarrow>
     (\<forall>t. FindProcess os pid t) \<and> (\<forall>sig t. Signal os pid sig t = Some ErrProcessDone)"

text \<open>No file of the snapshot has a negative size; \<open>os.Stat\<close> reports none.\<close>

definition sizes_nonneg :: "Snapshot \<Rightarrow> bool" where
  "sizes_nonneg snap \<longleftrightarrow> (\<forall>path info. Files snap path = Some info \<longrightarrow> 0 \<le>s Size info)"

section \<open>Concrete inputs\<close>

text \<open>Snapshots, file systems and processes on which the theorems below are evaluated.\<close>

definition regular :: "string \<Rightarrow> int64 \<Rightarrow> FileInfo" where
  "regular path bytes = \<lparr>Path = path, Size = bytes, ModTime = 0, IsDir = False, Permission = 420\<rparr>"

definition directory :: "string \<Rightarrow> int64 \<Rightarrow> FileInfo" where
  "directory path bytes = \<lparr>Path = path, Size = bytes, ModTime = 0, IsDir = True, Permission = 493\<rparr>"

definition config_of :: "int64 \<Rightarrow> Config" where
  "config_of threshold =
     \<lparr>Paths = [''/var/log''], ScanInterval = 5000000000, ThresholdBytes = threshold,
      WorkerCount = 1, MaxDepth = 10, FollowSymlinks = False, ExcludePatterns = []\<rparr>"

text \<open>The end-to-end example of the specification, with a second file that appears
  between the two snapshots.\<close>

definition log_earlier :: Snapshot where
  "log_earlier =
     \<lparr>Timestamp = 0,
      Files = [''/var/log/app.log'' \<mapsto> regular ''/var/log/app.log'' 1000000],
      TotalSize = 1000000, FileCount = 1\<rparr>"

definition log_later :: Snapshot where
  "log_later =
     \<lparr>Timestamp = 5000000000,
      Files = [''/var/log/app.log'' \<mapsto> regular ''/var/log/app.log'' 11500000,
               ''/var/log/new.log'' \<mapsto> regular ''/var/log/new.log'' 20000000],
      TotalSize = 31500000, FileCount = 2\<rparr>"

definition app_growth :: FileGrowth where
  "app_growth =
     \<lparr>GrowthPath = ''/var/log/app.log'', InitialSize = 1000000, FinalSize = 11500000,
      GrowthBytes = 10500000, GrowthRate = 2100000, Interval = 5000000000\<rparr>"

definition new_growth :: FileGrowth where
  "new_growth =
     \<lparr>GrowthPath = ''/var/log/new.log'', InitialSize = 0, FinalSize = 20000000,
      GrowthBytes = 20000000, GrowthRate = 4000000, Interval = 5000000000\<rparr>"

text \<open>The snapshot of an empty tree, and a snapshot taken at the same instant in which
  two files of the same size have appeared.\<close>

definition empty_snapshot :: Snapshot where
  "empty_snapshot = \<lparr>Timestamp = 0, Files = Map.empty, TotalSize = 0, FileCount = 0\<rparr>"

definition tie_later :: Snapshot where
  "tie_later =
     \<lparr>Timestamp = 0,
      Files = [''/tmp/a'' \<mapsto> regular ''/tmp/a'' 100, ''/tmp/b'' \<mapsto> regular ''/tmp/b'' 100],
      TotalSize = 200, FileCount = 2\<rparr>"

definition tie_growth :: "string \<Rightarrow> FileGrowth" where
  "tie_growth path =
     \<lparr>GrowthPath = path, InitialSize = 0, FinalSize = 100,
      GrowthBytes = 100, GrowthRate = 100, Interval = 1000000000\<rparr>"

text \<open>A later snapshot that holds a directory, as \<open>TakeSnapshot\<close> records one for a
  symbolic link to a directory when links are followed.\<close>

definition dir_later :: Snapshot where
  "dir_later =
     \<lparr>Timestamp = 1000000000,
      Files = [''/var/log/journal'' \<mapsto> directory ''/var/log/journal'' 4096],
      TotalSize = 0, FileCount = 0\<rparr>"

definition dir_growth :: FileGrowth where
  "dir_growth =
     \<lparr>GrowthPath = ''/var/log/journal'', InitialSize = 0, FinalSize = 4096,
      GrowthBytes = 4096, GrowthRate = 4096, Interval = 1000000000\<rparr>"

definition link_fs :: FS where
  "link_fs =
     \<lparr>ReadDir = (\<lambda>path. if path = ''/var/log''
                   then Some [\<lparr>Name = ''journal'', IsSymlink = True, EntryIsDir = False\<rparr>]
                   else None),
      Stat = (\<lambda>path. if path = ''/var/log/journal''
                then Some \<lparr>stat_Size = 4096, stat_ModTime = 0, stat_IsDir = True, stat_Perm = 493\<rparr>
                else None),
      Match = (\<lambda>pattern name. False)\<rparr>"

text \<open>A file that shrinks from 900 to 100 bytes.\<close>

definition trunc_earlier :: Snapshot where
  "trunc_earlier =
     \<lparr>Timestamp = 0, Files = [''/var/log/t.log'' \<mapsto> regular ''/var/log/t.log'' 900],
      TotalSize = 900, FileCount = 1\<rparr>"

definition trunc_later :: Snapshot where
  "trunc_later =
     \<lparr>Timestamp = 1000000000, Files = [''/var/log/t.log'' \<mapsto> regular ''/var/log/t.log'' 100],
      TotalSize = 100, FileCount = 1\<rparr>"

definition trunc_growth :: FileGrowth where
  "trunc_growth =
     \<lparr>GrowthPath = ''/var/log/t.log'', InitialSize = 900, FinalSize = 100,
      GrowthBytes = - 800, GrowthRate = - 800, Interval = 1000000000\<rparr>"

text \<open>A directory \<open>/tmp\<close> with the single file \<open>a\<close> of 5 bytes, and a configuration that
  names \<open>/tmp\<close> twice.\<close>

definition tmp_fs :: FS where
  "tmp_fs =
     \<lparr>ReadDir = (\<lambda>path. if path = ''/tmp''
                   then Some [\<lparr>Name = ''a'', IsSymlink = False, EntryIsDir = False\<rparr>]
                   else None),
      Stat = (\<lambda>path. if path = ''/tmp/a''
                then Some \<lparr>stat_Size = 5, stat_ModTime = 0, stat_IsDir = False, stat_Perm = 420\<rparr>
                else None),
      Match = (\<lambda>pattern name. False)\<rparr>"

definition twice_config :: Config where
  "twice_config =
     \<lparr>Paths = [''/tmp'', ''/tmp''], ScanInterval = 5000000000, ThresholdBytes = 10485760,
      WorkerCount = 1, MaxDepth = 10, FollowSymlinks = False, ExcludePatterns = []\<rparr>"

definition twice_snapshot :: Snapshot where
  "twice_snapshot =
     \<lparr>Timestamp = 0, Files = [''/tmp/a'' \<mapsto> regular ''/tmp/a'' 5],
      TotalSize = 10, FileCount = 2\<rparr>"

text \<open>Processes: one that has exited, one that ignores every signal, and one that exits
  120 milliseconds after the graceful signal.\<close>

definition os_exited :: OS where
  "os_exited =
     \<lparr>FindProcess = (\<lambda>pid t. True), Signal = (\<lambda>pid sig t. Some ErrProcessDone),
      select_done = False\<rparr>"

definition os_stubborn :: OS where
  "os_stubborn =
     \<lparr>FindProcess = (\<lambda>pid t. True), Signal = (\<lambda>pid sig t. None), select_done = False\<rparr>"

definition os_late :: OS where
  "os_late =
     \<lparr>FindProcess = (\<lambda>pid t. True),
      Signal = (\<lambda>pid sig t. if t < 120000000 then None else Some ErrProcessDone),
      select_done = False\<rparr>"

text \<open>A machine without service manager on which process 4243 runs \<open>sh\<close> and its parent
  4242 runs \<open>python3\<close>; and the catalogue name that matches a command name, in the words
  of the specification.\<close>

definition python_proc :: Proc where
  "python_proc =
     \<lparr>conn = False, GetUnitByPID = (\<lambda>pid. None), Get_Id = (\<lambda>u. None),
      Get_ActiveState = (\<lambda>u. None), Get_MainPID = (\<lambda>u. None), Get_Description = (\<lambda>u. None),
      ReadFile_comm = (\<lambda>pid. if pid = 4242 then Some (''python3'' @ [CHR 0x0A])
                            else if pid = 4243 then Some (''sh'' @ [CHR 0x0A]) else None),
      getParentPID = (\<lambda>pid. if pid = 4243 then Some 4242
                           else if pid = 4242 then Some 1 else None),
      Map_ToLower = (\<lambda>s. s)\<rparr>"

fun matched_name :: "Proc \<Rightarrow> string \<Rightarrow> string list \<Rightarrow> string option" where
  "matched_name r comm [] = None"
| "matched_name r comm (svc # rest) =
     (if Contains (ToLower (Map_ToLower r) comm) svc then Some svc
      else matched_name r comm rest)"

section \<open>The growth diff: what the loops return\<close>

lemma step_append:
  "CalculateGrowth_step t i f1 p info2 growing = growing @ CalculateGrowth_step t i f1 p info2 []"
  by (simp add: CalculateGrowth_step_def Let_def split: option.splits)

lemma CalculateGrowth_loop_concat:
  "CalculateGrowth_loop t i f1 f2 order growing =
     growing @ concat (map (growth_entries t i f1 f2) order)"
proof (induction order arbitrary: growing)
  case Nil
  show ?case by simp
next
  case (Cons p rest)
  show ?case
  proof (cases "f2 p")
    case None
    then show ?thesis by (simp add: Cons.IH growth_entries_def)
  next
    case (Some info2)
    then show ?thesis
      using step_append [of t i f1 p info2 growing]
      by (simp add: Cons.IH growth_entries_def)
  qed
qed

lemma CompareSnapshots_loop_concat:
  "CompareSnapshots_loop t i f1 f2 order growing =
     growing @ concat (map (compare_entries t i f1 f2) order)"
proof (induction order arbitrary: growing)
  case Nil
  show ?case by simp
next
  case (Cons p rest)
  show ?case
  proof (cases "f2 p")
    case None
    then show ?thesis by (simp add: Cons.IH compare_entries_def)
  next
    case (Some info2)
    then show ?thesis
      using step_append [of t i f1 p info2 growing]
      by (simp add: Cons.IH compare_entries_def)
  qed
qed

lemma growth_entries_mem:
  assumes "g \<in> set (growth_entries t i f1 f2 p)"
  shows "\<exists>info2. f2 p = Some info2 \<and> GrowthPath g = p \<and> FinalSize g = Size info2
           \<and> InitialSize g = (case f1 p of None \<Rightarrow> 0 | Some info1 \<Rightarrow> Size info1)
           \<and> GrowthBytes g = FinalSize g - InitialSize g
           \<and> t \<le>s GrowthBytes g \<and> Interval g = i
           \<and> GrowthRate g = fdiv (float64 (GrowthBytes g)) (Seconds i)"
proof (cases "f2 p")
  case None
  with assms show ?thesis by (simp add: growth_entries_def)
next
  case (Some info2)
  show ?thesis
  proof (cases "f1 p")
    case None
    with Some assms show ?thesis
      by (simp add: growth_entries_def CalculateGrowth_step_def split: if_splits)
  next
    case (Some info1)
    with \<open>f2 p = Some info2\<close> assms show ?thesis
      by (simp add: growth_entries_def CalculateGrowth_step_def Let_def split: if_splits)
  qed
qed

lemma compare_entries_subset:
  "set (compare_entries t i f1 f2 p) \<subseteq> set (growth_entries t i f1 f2 p)"
  by (cases "f2 p") (simp_all add: compare_entries_def growth_entries_def)

lemma compare_entries_not_dir:
  "g \<in> set (compare_entries t i f1 f2 p) \<Longrightarrow> \<exists>info2. f2 p = Some info2 \<and> \<not> IsDir info2"
  by (cases "f2 p") (auto simp: compare_entries_def split: if_splits)

lemma sint_sub_nonneg:
  fixes a b :: int64
  assumes "0 \<le>s a" "0 \<le>s b"
  shows "sint (b - a) = sint b - sint a"
proof -
  have a: "0 \<le> sint a" and b: "0 \<le> sint b"
    using assms by (simp_all add: word_sle_eq)
  have "sint a < 2 ^ 63" "sint b < 2 ^ 63"
    using sint_lt [of a] sint_lt [of b] by simp_all
  then have "- (2 ^ 63) \<le> sint b - sint a" "sint b - sint a < 2 ^ 63"
    using a b by linarith+
  then have "signed_take_bit 63 (sint b - sint a) = sint b - sint a"
    by (simp add: signed_take_bit_int_eq_self)
  then show ?thesis by (simp add: sint_word_ariths)
qed

lemma growth_interval_positive: "0 < sint (growth_interval A B)"
  by (simp add: growth_interval_def Let_def Second_def word_sle_eq)

lemma time_Sub_exact:
  "- (2 ^ 63) \<le> t - u \<Longrightarrow> t - u < 2 ^ 63 \<Longrightarrow> sint (time_Sub t u) = t - u"
proof -
  assume lo: "- (2 ^ 63) \<le> t - u" and hi: "t - u < 2 ^ 63"
  have "max (- (2 ^ 63)) (min (2 ^ 63 - 1) (t - u)) = t - u"
    using lo hi by simp
  then have "time_Sub t u = word_of_int (t - u)"
    by (simp only: time_Sub_def)
  then have "sint (time_Sub t u) = signed_take_bit 63 (t - u)"
    by (simp only: sint_sbintrunc') simp
  also have "\<dots> = t - u"
    using lo hi by (simp add: signed_take_bit_int_eq_self)
  finally show ?thesis .
qed

lemma CalculateGrowth_set:
  assumes "sort_contract less_rate (srt less_rate)"
  shows "set (CalculateGrowth srt cfg A B order) =
         (\<Union>p \<in> set order. set (growth_entries (ThresholdBytes cfg) (growth_interval A B) (Files A) (Files B) p))"
proof -
  let ?xs = "CalculateGrowth_loop (ThresholdBytes cfg) (growth_interval A B) (Files A) (Files B) order []"
  have "mset (srt less_rate ?xs) = mset ?xs"
    using assms by (simp add: sort_contract_def)
  then have "set (srt less_rate ?xs) = set ?xs"
    by (rule mset_eq_setD)
  then show ?thesis
    by (simp add: CalculateGrowth_def Let_def CalculateGrowth_loop_concat)
qed

lemma CompareSnapshots_set:
  "set (CompareSnapshots A B T order) =
     (\<Union>p \<in> set order. set (compare_entries T (growth_interval A B) (Files A) (Files B) p))"
  by (simp add: CompareSnapshots_def CompareSnapshots_loop_concat)

lemma CalculateGrowth_mem:
  assumes "sort_contract less_rate (srt less_rate)"
    and "g \<in> set (CalculateGrowth srt cfg A B order)"
  shows "g \<in> set (growth_entries (ThresholdBytes cfg) (growth_interval A B) (Files A) (Files B) (GrowthPath g))"
proof -
  from assms obtain p where
    p: "g \<in> set (growth_entries (ThresholdBytes cfg) (growth_interval A B) (Files A) (Files B) p)"
    by (auto simp: CalculateGrowth_set)
  then have "GrowthPath g = p"
    using growth_entries_mem by blast
  with p show ?thesis by simp
qed

lemma CompareSnapshots_mem:
  assumes "g \<in> set (CompareSnapshots A B T order)"
  shows "g \<in> set (compare_entries T (growth_interval A B) (Files A) (Files B) (GrowthPath g))"
proof -
  from assms obtain p where
    p: "g \<in> set (compare_entries T (growth_interval A B) (Files A) (Files B) p)"
    by (auto simp: CompareSnapshots_set)
  then have "GrowthPath g = p"
    using growth_entries_mem compare_entries_subset by blast
  with p show ?thesis by simp
qed

section \<open>The insertion sort meets the contract of the library sort\<close>

lemma set_insert_left: "set (insert_left lessf x ys) = insert x (set ys)"
  by (induction ys) auto

lemma mset_insert_left: "mset (insert_left lessf x ys) = add_mset x (mset ys)"
  by (induction ys) auto

lemma sorted_insert_left:
  assumes asym: "\<And>a b. lessf a b \<Longrightarrow> \<not> lessf b a"
    and ntrans: "\<And>a b c. \<not> lessf a b \<Longrightarrow> \<not> lessf b c \<Longrightarrow> \<not> lessf a c"
    and sorted: "sorted_wrt (\<lambda>a b. \<not> lessf a b) ys"
  shows "sorted_wrt (\<lambda>a b. \<not> lessf a b) (insert_left lessf x ys)"
  using sorted
proof (induction ys)
  case Nil
  show ?case by simp
next
  case (Cons y ys)
  show ?case
  proof (cases "lessf x y")
    case True
    then have "\<not> lessf y x" by (rule asym)
    with True Cons show ?thesis by (simp add: set_insert_left)
  next
    case False
    have "\<not> lessf x z" if "z \<in> set ys" for z
    proof -
      from Cons.prems that have "\<not> lessf y z" by simp
      with False show ?thesis by (rule ntrans)
    qed
    with False Cons.prems show ?thesis by simp
  qed
qed

lemma foldl_insert_left:
  assumes asym: "\<And>a b. lessf a b \<Longrightarrow> \<not> lessf b a"
    and ntrans: "\<And>a b c. \<not> lessf a b \<Longrightarrow> \<not> lessf b c \<Longrightarrow> \<not> lessf a c"
  shows "sorted_wrt (\<lambda>a b. \<not> lessf a b) acc \<Longrightarrow>
         sorted_wrt (\<lambda>a b. \<not> lessf a b) (foldl (\<lambda>prefix x. insert_left lessf x prefix) acc xs) \<and>
         mset (foldl (\<lambda>prefix x. insert_left lessf x prefix) acc xs) = mset acc + mset xs"
proof (induction xs arbitrary: acc)
  case Nil
  then show ?case by simp
next
  case (Cons x xs)
  have "sorted_wrt (\<lambda>a b. \<not> lessf a b) (insert_left lessf x acc)"
    using asym ntrans Cons.prems by (rule sorted_insert_left)
  from Cons.IH [OF this] show ?case
    by (simp add: mset_insert_left)
qed

lemma insertionSort_contract:
  assumes asym: "\<And>a b. lessf a b \<Longrightarrow> \<not> lessf b a"
    and ntrans: "\<And>a b c. \<not> lessf a b \<Longrightarrow> \<not> lessf b c \<Longrightarrow> \<not> lessf a c"
  shows "sort_contract lessf (insertionSort lessf)"
proof -
  have "sorted_wrt (\<lambda>a b. \<not> lessf a b) ([] :: 'a list)" by simp
  from foldl_insert_left [OF asym ntrans this]
  show ?thesis
    by (simp add: sort_contract_def insertionSort_def sorted_wrt_rev)
qed

lemma insertionSort_less_rate: "sort_contract less_rate (insertionSort less_rate)"
proof (rule insertionSort_contract)
  show "less_rate a b \<Longrightarrow> \<not> less_rate b a" for a b
    by (simp add: less_rate_def)
  show "\<not> less_rate a b \<Longrightarrow> \<not> less_rate b c \<Longrightarrow> \<not> less_rate a c" for a b c
    by (simp add: less_rate_def)
qed

section \<open>Floating-point arithmetic keeps the sign\<close>

lemma pow2_power_int: "pow2 e = power_int 2 e"
  by (simp add: pow2_def power_int_def power_inverse field_simps)

lemma pow2_pos: "0 < pow2 e"
  by (simp add: pow2_def)

lemma pow2_mono: "a \<le> b \<Longrightarrow> pow2 a \<le> pow2 b"
  by (simp add: pow2_power_int power_int_increasing)

lemma pow2_exponent_le:
  assumes "x \<noteq> 0"
  shows "pow2 (exponent x) \<le> \<bar>x\<bar>"
proof (cases "1 \<le> \<bar>x\<bar>")
  case True
  let ?n = "\<lfloor>\<bar>x\<bar>\<rfloor>"
  from True have n: "0 < ?n" by linarith
  from bitlen_bounds [OF n] have "2 ^ nat (bitlen ?n - 1) \<le> ?n" ..
  then have "(of_int (2 ^ nat (bitlen ?n - 1)) :: rat) \<le> of_int ?n"
    by (simp only: of_int_le_iff)
  also have "\<dots> \<le> \<bar>x\<bar>" by simp
  finally have le: "(2 :: rat) ^ nat (bitlen ?n - 1) \<le> \<bar>x\<bar>" by simp
  from n have "1 \<le> bitlen ?n"
    using bitlen_eq_zero_iff [of ?n] bitlen_nonneg [of ?n] by linarith
  with True le show ?thesis by (simp add: exponent_def pow2_def)
next
  case False
  let ?m = "\<lceil>1 / \<bar>x\<bar>\<rceil>"
  let ?b = "bitlen (?m - 1)"
  from False assms have small: "0 < \<bar>x\<bar>" "\<bar>x\<bar> < 1" by simp_all
  then have "1 < 1 / \<bar>x\<bar>" by (simp add: field_simps)
  then have m: "0 < ?m - 1" by linarith
  from bitlen_bounds [OF m] have "?m - 1 < 2 ^ nat ?b" ..
  then have "?m \<le> 2 ^ nat ?b" by simp
  then have "(of_int ?m :: rat) \<le> of_int (2 ^ nat ?b)"
    by (simp only: of_int_le_iff)
  then have "(of_int ?m :: rat) \<le> 2 ^ nat ?b" by simp
  moreover have "1 / \<bar>x\<bar> \<le> of_int ?m" by (rule le_of_int_ceiling)
  ultimately have "1 / \<bar>x\<bar> \<le> (2 :: rat) ^ nat ?b" by (rule order_trans [rotated])
  with small have le: "1 / (2 :: rat) ^ nat ?b \<le> \<bar>x\<bar>"
    by (simp add: field_simps)
  from m have "1 \<le> ?b"
    using bitlen_eq_zero_iff [of "?m - 1"] bitlen_nonneg [of "?m - 1"] by linarith
  with False le show ?thesis by (simp add: exponent_def pow2_def)
qed

lemma round_even_nonneg: "0 \<le> y \<Longrightarrow> 0 \<le> round_even y"
  by (simp add: round_even_def Let_def)

lemma round_even_ge_1: "1 \<le> y \<Longrightarrow> 1 \<le> round_even y"
proof -
  assume "1 \<le> y"
  then have "1 \<le> \<lfloor>y\<rfloor>" by simp
  then show ?thesis by (simp add: round_even_def Let_def)
qed

lemma round64_nonneg:
  assumes "0 \<le> x"
  shows "0 \<le> round64 x"
proof (cases "x = 0")
  case True
  then show ?thesis by (simp add: round64_def)
next
  case False
  let ?ulp = "pow2 (exponent x - 52)"
  have "0 \<le> x / ?ulp" using assms pow2_pos [of "exponent x - 52"] by simp
  then have "0 \<le> round_even (x / ?ulp)" by (rule round_even_nonneg)
  with False pow2_pos [of "exponent x - 52"] show ?thesis
    by (simp add: round64_def Let_def)
qed

lemma round64_pos:
  assumes "0 < x"
  shows "0 < round64 x"
proof -
  let ?ulp = "pow2 (exponent x - 52)"
  have ulp: "0 < ?ulp" by (rule pow2_pos)
  have "?ulp \<le> pow2 (exponent x)" by (rule pow2_mono) simp
  also have "\<dots> \<le> \<bar>x\<bar>" using assms by (intro pow2_exponent_le) simp
  finally have "?ulp \<le> x" using assms by simp
  with ulp have "1 \<le> x / ?ulp" by (simp add: field_simps)
  then have "1 \<le> round_even (x / ?ulp)" by (rule round_even_ge_1)
  then have "0 < (of_int (round_even (x / ?ulp)) :: rat)" by simp
  with ulp have "0 < of_int (round_even (x / ?ulp)) * ?ulp" by simp
  with assms show ?thesis by (simp add: round64_def Let_def)
qed

lemma Seconds_pos:
  assumes "0 < sint d"
  shows "0 < Seconds d"
proof -
  let ?n = "sint d"
  let ?sec = "quo ?n 1000000000" and ?nsec = "rem ?n 1000000000"
  have sec: "?sec = ?n div 1000000000"
    using assms by (simp add: quo_def)
  then have nsec: "?nsec = ?n mod 1000000000"
    by (simp add: rem_def minus_mult_div_eq_mod)
  from assms sec have sec0: "0 \<le> ?sec" by simp
  from nsec have nsec0: "0 \<le> ?nsec" by simp
  let ?a = "round64 (of_int ?sec)"
  let ?b = "fdiv (round64 (of_int ?nsec)) 1000000000"
  from sec0 have a: "0 \<le> ?a" by (intro round64_nonneg) simp
  from nsec0 have "0 \<le> round64 (of_int ?nsec)" by (intro round64_nonneg) simp
  then have b: "0 \<le> ?b" unfolding fdiv_def by (intro round64_nonneg) simp
  have "0 < ?a + ?b"
  proof (cases "?sec = 0")
    case False
    with sec0 have "0 < ?sec" by simp
    then have "0 < ?a" by (intro round64_pos) simp
    with b show ?thesis by simp
  next
    case True
    with assms have "0 < ?nsec" by (simp add: rem_def)
    then have "0 < round64 (of_int ?nsec)" by (intro round64_pos) simp
    then have "0 < ?b" unfolding fdiv_def by (intro round64_pos) simp
    with a show ?thesis by simp
  qed
  then have "0 < fadd ?a ?b" unfolding fadd_def by (rule round64_pos)
  then show ?thesis by (simp only: Seconds_def Let_def)
qed

text \<open>Two sizes that differ and become the same \<open>float64\<close>.\<close>

lemma float64_tie: "float64 9007199254740993 = float64 9007199254740992"
  by code_simp

section \<open>Evaluating the diff on the concrete snapshots\<close>

text \<open>The floating-point results that occur in them.\<close>

lemma float_eval:
  "Seconds 5000000000 = 5"
  "Seconds 1000000000 = 1"
  "fdiv (float64 10500000) 5 = 2100000"
  "fdiv (float64 20000000) 5 = 4000000"
  "fdiv (float64 100) 1 = 100"
  "fdiv (float64 4096) 1 = 4096"
  "fdiv (float64 (- 800)) 1 = - 800"
  by code_simp+

lemmas diff_eval =
  CalculateGrowth_def CompareSnapshots_def growth_interval_def time_Sub_def Second_def
  CalculateGrowth_step_def float_eval Let_def insertionSort_def less_rate_def
  regular_def directory_def config_of_def word_sle_eq word_sless_alt

lemma CalculateGrowth_log:
  "CalculateGrowth insertionSort (config_of 10485760) log_earlier log_later
     [''/var/log/app.log'', ''/var/log/new.log''] = [new_growth, app_growth]"
  by (simp add: diff_eval log_earlier_def log_later_def app_growth_def new_growth_def)

lemma CalculateGrowth_log_rev:
  "CalculateGrowth insertionSort (config_of 10485760) log_earlier log_later
     [''/var/log/new.log'', ''/var/log/app.log''] = [new_growth, app_growth]"
  by (simp add: diff_eval log_earlier_def log_later_def app_growth_def new_growth_def)

lemma CompareSnapshots_log:
  "CompareSnapshots log_earlier log_later 10485760
     [''/var/log/app.log'', ''/var/log/new.log''] = [app_growth, new_growth]"
  by (simp add: diff_eval log_earlier_def log_later_def app_growth_def new_growth_def)

section \<open>C1: the invariant of the reported entries\<close>

lemma new_file_entry:
  assumes "f2 p = Some info2" and "f1 p = None" and "t \<le>s Size info2"
  shows "growth_entries t i f1 f2 p =
           [\<lparr>GrowthPath = p, InitialSize = 0, FinalSize = Size info2, GrowthBytes = Size info2,
             GrowthRate = fdiv (float64 (Size info2)) (Seconds i), Interval = i\<rparr>]"
  using assms by (simp add: growth_entries_def CalculateGrowth_step_def)

text \<open>
  C1. For every pair of snapshots and every threshold, every entry that the growth diff
  returns (\<open>Scanner.CalculateGrowth\<close> with the configured threshold, and
  \<open>CompareSnapshots\<close> with any threshold) has \<open>GrowthBytes \<ge> threshold\<close> in the signed
  order and \<open>GrowthBytes = FinalSize - InitialSize\<close> in \<open>int64\<close> arithmetic, which is the
  difference of the two sizes as integers when neither size is negative; an entry whose
  path is not a key of the earlier snapshot has \<open>InitialSize = 0\<close> and
  \<open>GrowthBytes = FinalSize\<close>. And a file of the later snapshot that the earlier one lacks
  and whose size reaches the threshold is reported, with these two values.
\<close>

theorem growth_entry_invariant:
  assumes "sort_contract less_rate (sort_Slice less_rate)"
  shows "(\<forall>g T. g \<in> set (CalculateGrowth sort_Slice config A B order) \<and> T = ThresholdBytes config
            \<or> g \<in> set (CompareSnapshots A B T order') \<longrightarrow>
          T \<le>s GrowthBytes g \<and>
          GrowthBytes g = FinalSize g - InitialSize g \<and>
          (0 \<le>s InitialSize g \<and> 0 \<le>s FinalSize g \<longrightarrow>
             sint (GrowthBytes g) = sint (FinalSize g) - sint (InitialSize g)) \<and>
          (Files A (GrowthPath g) = None \<longrightarrow> InitialSize g = 0 \<and> GrowthBytes g = FinalSize g)) \<and>
         (\<forall>p info2 g.
            range_order (Files B) order \<and> range_order (Files B) order' \<and>
            Files B p = Some info2 \<and> \<not> IsDir info2 \<and> Files A p = None \<and>
            ThresholdBytes config \<le>s Size info2 \<and>
            g = \<lparr>GrowthPath = p, InitialSize = 0, FinalSize = Size info2,
                  GrowthBytes = Size info2,
                  GrowthRate = fdiv (float64 (Size info2)) (Seconds (growth_interval A B)),
                  Interval = growth_interval A B\<rparr> \<longrightarrow>
            g \<in> set (CalculateGrowth sort_Slice config A B order) \<and>
            g \<in> set (CompareSnapshots A B (ThresholdBytes config) order'))"
proof (intro conjI allI impI)
  fix g T
  assume reported: "g \<in> set (CalculateGrowth sort_Slice config A B order) \<and> T = ThresholdBytes config
         \<or> g \<in> set (CompareSnapshots A B T order')"
  have "g \<in> set (growth_entries T (growth_interval A B) (Files A) (Files B) (GrowthPath g))"
    using reported
  proof
    assume "g \<in> set (CalculateGrowth sort_Slice config A B order) \<and> T = ThresholdBytes config"
    then show ?thesis using CalculateGrowth_mem [where srt = sort_Slice, OF assms] by blast
  next
    assume "g \<in> set (CompareSnapshots A B T order')"
    from CompareSnapshots_mem [OF this] compare_entries_subset
    show ?thesis by blast
  qed
  from growth_entries_mem [OF this]
  have ge: "T \<le>s GrowthBytes g"
    and diff: "GrowthBytes g = FinalSize g - InitialSize g"
    and init: "InitialSize g = (case Files A (GrowthPath g) of None \<Rightarrow> 0 | Some info1 \<Rightarrow> Size info1)"
    by auto
  show "T \<le>s GrowthBytes g" by (rule ge)
  show "GrowthBytes g = FinalSize g - InitialSize g" by (rule diff)
  show "sint (GrowthBytes g) = sint (FinalSize g) - sint (InitialSize g)"
    if "0 \<le>s InitialSize g \<and> 0 \<le>s FinalSize g"
    using that sint_sub_nonneg [of "InitialSize g" "FinalSize g"] diff by simp
  show "InitialSize g = 0" if "Files A (GrowthPath g) = None"
    using that init by simp
  show "GrowthBytes g = FinalSize g" if "Files A (GrowthPath g) = None"
    using that init diff by simp
next
  fix p info2 g
  assume new: "range_order (Files B) order \<and> range_order (Files B) order' \<and>
            Files B p = Some info2 \<and> \<not> IsDir info2 \<and> Files A p = None \<and>
            ThresholdBytes config \<le>s Size info2 \<and>
            g = \<lparr>GrowthPath = p, InitialSize = 0, FinalSize = Size info2,
                  GrowthBytes = Size info2,
                  GrowthRate = fdiv (float64 (Size info2)) (Seconds (growth_interval A B)),
                  Interval = growth_interval A B\<rparr>"
  then have visited: "p \<in> set order" "p \<in> set order'"
    by (auto simp: range_order_def)
  from new have entry:
    "growth_entries (ThresholdBytes config) (growth_interval A B) (Files A) (Files B) p = [g]"
    by (simp add: new_file_entry)
  with new have entry':
    "compare_entries (ThresholdBytes config) (growth_interval A B) (Files A) (Files B) p = [g]"
    by (simp add: compare_entries_def growth_entries_def)
  from entry have
    "g \<in> set (growth_entries (ThresholdBytes config) (growth_interval A B) (Files A) (Files B) p)"
    by simp
  with visited(1) show "g \<in> set (CalculateGrowth sort_Slice config A B order)"
    unfolding CalculateGrowth_set [where srt = sort_Slice, OF assms] by blast
  from entry' have
    "g \<in> set (compare_entries (ThresholdBytes config) (growth_interval A B) (Files A) (Files B) p)"
    by simp
  with visited(2) show "g \<in> set (CompareSnapshots A B (ThresholdBytes config) order')"
    unfolding CompareSnapshots_set by blast
qed

theorem growth_entry_invariant_witness:
  "sort_contract less_rate (insertionSort less_rate) \<and>
   range_order (Files log_later) [''/var/log/app.log'', ''/var/log/new.log''] \<and>
   Files log_later ''/var/log/new.log'' = Some (regular ''/var/log/new.log'' 20000000) \<and>
   Files log_earlier ''/var/log/new.log'' = None \<and>
   new_growth \<in> set (CalculateGrowth insertionSort (config_of 10485760) log_earlier log_later
                       [''/var/log/app.log'', ''/var/log/new.log'']) \<and>
   new_growth \<in> set (CompareSnapshots log_earlier log_later 10485760
                       [''/var/log/app.log'', ''/var/log/new.log'']) \<and>
   (10485760 :: int64) \<le>s GrowthBytes new_growth \<and>
   GrowthBytes new_growth = FinalSize new_growth - InitialSize new_growth \<and>
   InitialSize new_growth = 0 \<and> GrowthBytes new_growth = FinalSize new_growth \<and>
   sint (GrowthBytes new_growth) = sint (FinalSize new_growth) - sint (InitialSize new_growth)"
proof -
  let ?order = "[''/var/log/app.log'', ''/var/log/new.log'']"
  let ?info2 = "regular ''/var/log/new.log'' 20000000"
  note inv = growth_entry_invariant [of insertionSort "config_of 10485760" log_earlier log_later
      ?order ?order, OF insertionSort_less_rate]
  have order: "range_order (Files log_later) ?order"
    by (auto simp: range_order_def log_later_def)
  have later: "Files log_later ''/var/log/new.log'' = Some ?info2"
    by (simp add: log_later_def)
  have earlier: "Files log_earlier ''/var/log/new.log'' = None"
    by (simp add: log_earlier_def)
  have regular_file: "\<not> IsDir ?info2" and size: "ThresholdBytes (config_of 10485760) \<le>s Size ?info2"
    by (simp_all add: regular_def config_of_def word_sle_eq)
  have g: "new_growth = \<lparr>GrowthPath = ''/var/log/new.log'', InitialSize = 0, FinalSize = Size ?info2,
                  GrowthBytes = Size ?info2,
                  GrowthRate = fdiv (float64 (Size ?info2)) (Seconds (growth_interval log_earlier log_later)),
                  Interval = growth_interval log_earlier log_later\<rparr>"
    by (simp add: new_growth_def regular_def float_eval growth_interval_def
          time_Sub_def log_later_def log_earlier_def word_sle_eq)
  from order later earlier regular_file size g
  have new: "range_order (Files log_later) ?order \<and> range_order (Files log_later) ?order \<and>
      Files log_later ''/var/log/new.log'' = Some ?info2 \<and> \<not> IsDir ?info2 \<and>
      Files log_earlier ''/var/log/new.log'' = None \<and>
      ThresholdBytes (config_of 10485760) \<le>s Size ?info2 \<and>
      new_growth = \<lparr>GrowthPath = ''/var/log/new.log'', InitialSize = 0, FinalSize = Size ?info2,
                  GrowthBytes = Size ?info2,
                  GrowthRate = fdiv (float64 (Size ?info2)) (Seconds (growth_interval log_earlier log_later)),
                  Interval = growth_interval log_earlier log_later\<rparr>"
    by (intro conjI)
  have thr: "ThresholdBytes (config_of 10485760) = 10485760"
    by (simp add: config_of_def)
  from inv [THEN conjunct2, rule_format, OF new]
  have mem: "new_growth \<in> set (CalculateGrowth insertionSort (config_of 10485760) log_earlier
               log_later ?order)"
    and mem': "new_growth \<in> set (CompareSnapshots log_earlier log_later 10485760 ?order)"
    by (simp_all only: thr)
  from mem thr
  have reported: "new_growth \<in> set (CalculateGrowth insertionSort (config_of 10485760) log_earlier
               log_later ?order) \<and> 10485760 = ThresholdBytes (config_of 10485760)
         \<or> new_growth \<in> set (CompareSnapshots log_earlier log_later 10485760 ?order)"
    by simp
  note entry = inv [THEN conjunct1, rule_format, OF reported]
  have absent: "Files log_earlier (GrowthPath new_growth) = None"
    by (simp add: log_earlier_def new_growth_def)
  have nonneg: "0 \<le>s InitialSize new_growth \<and> 0 \<le>s FinalSize new_growth"
    by (simp add: new_growth_def word_sle_eq)
  from entry absent nonneg
  have "(10485760 :: int64) \<le>s GrowthBytes new_growth"
    and "GrowthBytes new_growth = FinalSize new_growth - InitialSize new_growth"
    and "InitialSize new_growth = 0" and "GrowthBytes new_growth = FinalSize new_growth"
    and "sint (GrowthBytes new_growth) = sint (FinalSize new_growth) - sint (InitialSize new_growth)"
    by blast+
  with insertionSort_less_rate order later earlier mem mem'
  show ?thesis by (intro conjI)
qed

section \<open>C5: the interval and the rate\<close>

lemma sint_time_Sub:
  "sint (time_Sub t u) = max (- (2 ^ 63)) (min (2 ^ 63 - 1) (t - u))"
proof -
  let ?d = "max (- (2 ^ 63)) (min (2 ^ 63 - 1) (t - u)) :: int"
  have "- (2 ^ 63) \<le> ?d" "?d < 2 ^ 63" by simp_all
  then have "signed_take_bit 63 ?d = ?d"
    by (simp add: signed_take_bit_int_eq_self)
  moreover have "sint (time_Sub t u) = signed_take_bit 63 ?d"
    by (simp only: time_Sub_def sint_sbintrunc') simp
  ultimately show ?thesis by simp
qed

lemma time_Sub_nonpositive: "time_Sub t u \<le>s 0 \<longleftrightarrow> t - u \<le> 0"
  by (auto simp: word_sle_eq sint_time_Sub min_le_iff_disj)

lemma Seconds_growth_interval: "0 < Seconds (growth_interval A B)"
  using growth_interval_positive [of A B] by (rule Seconds_pos)

text \<open>One byte in three seconds: the rate is the \<open>float64\<close> nearest to one third.\<close>

lemma rate_one_third:
  "fdiv (float64 1) (Seconds 3000000000) = 6004799503160661 / 18014398509481984"
  by code_simp

text \<open>
  C5. In both diff functions the interval is \<open>later.Timestamp.Sub(earlier.Timestamp)\<close>,
  except that one second is taken when that difference is not positive; the library's
  \<open>Sub\<close> is the difference of the two instants whenever it fits a \<open>Duration\<close>. Every
  reported entry carries that interval, its \<open>GrowthRate\<close> is the \<open>float64\<close> quotient of
  \<open>float64(GrowthBytes)\<close> by the interval's \<open>Seconds()\<close>, and that divisor is positive:
  the division is never by zero or by a negative number.
\<close>

theorem growth_rate_by_interval:
  assumes "sort_contract less_rate (sort_Slice less_rate)"
    and "g \<in> set (CalculateGrowth sort_Slice config A B order)
         \<or> g \<in> set (CompareSnapshots A B T order')"
  shows "growth_interval A B =
           (if Timestamp B - Timestamp A \<le> 0 then Second
            else time_Sub (Timestamp B) (Timestamp A)) \<and>
         (- (2 ^ 63) \<le> Timestamp B - Timestamp A \<and> Timestamp B - Timestamp A < 2 ^ 63 \<longrightarrow>
            sint (time_Sub (Timestamp B) (Timestamp A)) = Timestamp B - Timestamp A) \<and>
         Interval g = growth_interval A B \<and>
         GrowthRate g = fdiv (float64 (GrowthBytes g)) (Seconds (Interval g)) \<and>
         0 < Seconds (Interval g)"
proof -
  have "\<exists>t. g \<in> set (growth_entries t (growth_interval A B) (Files A) (Files B) (GrowthPath g))"
    using assms(2)
  proof
    assume "g \<in> set (CalculateGrowth sort_Slice config A B order)"
    then show ?thesis using CalculateGrowth_mem [where srt = sort_Slice, OF assms(1)] by blast
  next
    assume "g \<in> set (CompareSnapshots A B T order')"
    from CompareSnapshots_mem [OF this] compare_entries_subset
    show ?thesis by blast
  qed
  then obtain t where
    "g \<in> set (growth_entries t (growth_interval A B) (Files A) (Files B) (GrowthPath g))" ..
  from growth_entries_mem [OF this]
  have i: "Interval g = growth_interval A B"
    and r: "GrowthRate g = fdiv (float64 (GrowthBytes g)) (Seconds (growth_interval A B))"
    by auto
  have "growth_interval A B =
          (if Timestamp B - Timestamp A \<le> 0 then Second
           else time_Sub (Timestamp B) (Timestamp A))"
    by (simp add: growth_interval_def Let_def time_Sub_nonpositive)
  moreover have "sint (time_Sub (Timestamp B) (Timestamp A)) = Timestamp B - Timestamp A"
    if "- (2 ^ 63) \<le> Timestamp B - Timestamp A \<and> Timestamp B - Timestamp A < 2 ^ 63"
    using that by (simp add: time_Sub_exact)
  ultimately show ?thesis
    using i r Seconds_growth_interval [of A B] by simp
qed

text \<open>On the two files that appear in a snapshot retaken at the same instant
  (\<open>CalculateGrowth\<close>, one second substituted), and on the growing log five seconds
  later (\<open>CompareSnapshots\<close>).\<close>

theorem growth_rate_by_interval_witness:
  "sort_contract less_rate (insertionSort less_rate) \<and>
   tie_growth ''/tmp/a'' \<in> set (CalculateGrowth insertionSort (config_of 10) empty_snapshot
                                   tie_later [''/tmp/a'', ''/tmp/b'']) \<and>
   Timestamp tie_later - Timestamp empty_snapshot = 0 \<and>
   growth_interval empty_snapshot tie_later = Second \<and>
   Interval (tie_growth ''/tmp/a'') = growth_interval empty_snapshot tie_later \<and>
   GrowthRate (tie_growth ''/tmp/a'')
     = fdiv (float64 (GrowthBytes (tie_growth ''/tmp/a''))) (Seconds (Interval (tie_growth ''/tmp/a''))) \<and>
   0 < Seconds (Interval (tie_growth ''/tmp/a'')) \<and>
   app_growth \<in> set (CompareSnapshots log_earlier log_later 10485760
                       [''/var/log/app.log'', ''/var/log/new.log'']) \<and>
   Timestamp log_later - Timestamp log_earlier = 5000000000 \<and>
   growth_interval log_earlier log_later = time_Sub (Timestamp log_later) (Timestamp log_earlier) \<and>
   sint (time_Sub (Timestamp log_later) (Timestamp log_earlier)) = 5000000000 \<and>
   Interval app_growth = growth_interval log_earlier log_later \<and>
   GrowthRate app_growth = fdiv (float64 (GrowthBytes app_growth)) (Seconds (Interval app_growth)) \<and>
   0 < Seconds (Interval app_growth) \<and>
   Seconds (Interval app_growth) = 5 \<and> GrowthRate app_growth = 2100000"
proof -
  have tie_mem: "tie_growth ''/tmp/a'' \<in> set (CalculateGrowth insertionSort (config_of 10)
                   empty_snapshot tie_later [''/tmp/a'', ''/tmp/b''])"
    by (simp add: diff_eval empty_snapshot_def tie_later_def tie_growth_def)
  have tie_diff: "Timestamp tie_later - Timestamp empty_snapshot = 0"
    by (simp add: tie_later_def empty_snapshot_def)
  note tie = growth_rate_by_interval [of insertionSort "tie_growth ''/tmp/a''" "config_of 10"
      empty_snapshot tie_later "[''/tmp/a'', ''/tmp/b'']" 0 "[]",
      OF insertionSort_less_rate disjI1, OF tie_mem]
  from tie [THEN conjunct1] tie_diff
  have tie_interval: "growth_interval empty_snapshot tie_later = Second" by simp
  note tie_entry = tie [THEN conjunct2, THEN conjunct2]
  have log_mem: "app_growth \<in> set (CompareSnapshots log_earlier log_later 10485760
               [''/var/log/app.log'', ''/var/log/new.log''])"
    by (simp add: CompareSnapshots_log)
  have log_diff: "Timestamp log_later - Timestamp log_earlier = 5000000000"
    by (simp add: log_later_def log_earlier_def)
  note log = growth_rate_by_interval [of insertionSort app_growth "config_of 10485760"
      log_earlier log_later "[]" 10485760 "[''/var/log/app.log'', ''/var/log/new.log'']",
      OF insertionSort_less_rate disjI2, OF log_mem]
  from log [THEN conjunct1] log_diff
  have log_interval: "growth_interval log_earlier log_later
      = time_Sub (Timestamp log_later) (Timestamp log_earlier)" by simp
  from log [THEN conjunct2, THEN conjunct1] log_diff
  have log_sub: "sint (time_Sub (Timestamp log_later) (Timestamp log_earlier)) = 5000000000"
    by simp
  note log_entry = log [THEN conjunct2, THEN conjunct2]
  have secs: "Seconds (Interval app_growth) = 5"
    by (simp add: app_growth_def float_eval)
  have rate: "GrowthRate app_growth = 2100000"
    by (simp add: app_growth_def)
  from insertionSort_less_rate tie_mem tie_diff tie_interval
    tie_entry [THEN conjunct1] tie_entry [THEN conjunct2, THEN conjunct1]
    tie_entry [THEN conjunct2, THEN conjunct2]
    log_mem log_diff log_interval log_sub
    log_entry [THEN conjunct1] log_entry [THEN conjunct2, THEN conjunct1]
    log_entry [THEN conjunct2, THEN conjunct2] secs rate
  show ?thesis by (intro conjI)
qed

section \<open>C4: truncated and deleted files\<close>

theorem truncation_reported_counterexample:
  "trunc_growth \<in> set (CalculateGrowth insertionSort (config_of (- 1000)) trunc_earlier trunc_later
                         [''/var/log/t.log'']) \<and>
   trunc_growth \<in> set (CompareSnapshots trunc_earlier trunc_later (- 1000) [''/var/log/t.log'']) \<and>
   FinalSize trunc_growth <s InitialSize trunc_growth"
  by (simp add: diff_eval trunc_earlier_def trunc_later_def trunc_growth_def)

text \<open>
  C4, amended. Every path that the growth diff reports is a key of the later snapshot, so
  a file present only in the earlier snapshot is never reported. When the threshold is
  not negative and no size in the two snapshots is negative, no reported entry has
  \<open>FinalSize < InitialSize\<close>. (With a negative threshold a file that shrank by less than
  the threshold's magnitude is reported.)
\<close>

theorem no_deleted_no_truncated:
  assumes "sort_contract less_rate (sort_Slice less_rate)"
    and "g \<in> set (CalculateGrowth sort_Slice config A B order) \<and> T = ThresholdBytes config
         \<or> g \<in> set (CompareSnapshots A B T order')"
  shows "GrowthPath g \<in> dom (Files B) \<and>
         (0 \<le>s T \<and> sizes_nonneg A \<and> sizes_nonneg B \<longrightarrow> \<not> FinalSize g <s InitialSize g)"
proof -
  have "g \<in> set (growth_entries T (growth_interval A B) (Files A) (Files B) (GrowthPath g))"
    using assms(2)
  proof
    assume "g \<in> set (CalculateGrowth sort_Slice config A B order) \<and> T = ThresholdBytes config"
    then show ?thesis using CalculateGrowth_mem [where srt = sort_Slice, OF assms(1)] by blast
  next
    assume "g \<in> set (CompareSnapshots A B T order')"
    from CompareSnapshots_mem [OF this] compare_entries_subset
    show ?thesis by blast
  qed
  from growth_entries_mem [OF this] obtain info2 where
    later: "Files B (GrowthPath g) = Some info2"
    and final: "FinalSize g = Size info2"
    and init: "InitialSize g = (case Files A (GrowthPath g) of None \<Rightarrow> 0 | Some info1 \<Rightarrow> Size info1)"
    and diff: "GrowthBytes g = FinalSize g - InitialSize g"
    and ge: "T \<le>s GrowthBytes g"
    by auto
  have "\<not> FinalSize g <s InitialSize g"
    if T: "0 \<le>s T" and A: "sizes_nonneg A" and B: "sizes_nonneg B"
  proof -
    have f: "0 \<le>s FinalSize g"
      using B later final by (auto simp: sizes_nonneg_def)
    have i: "0 \<le>s InitialSize g"
    proof (cases "Files A (GrowthPath g)")
      case None
      with init show ?thesis by simp
    next
      case (Some info1)
      with init A show ?thesis by (auto simp: sizes_nonneg_def)
    qed
    have "sint (GrowthBytes g) = sint (FinalSize g) - sint (InitialSize g)"
      using sint_sub_nonneg [OF i f] diff by simp
    moreover have "0 \<le> sint (GrowthBytes g)"
      using T ge by (simp add: word_sle_eq)
    ultimately show ?thesis by (simp add: word_sless_alt)
  qed
  with later show ?thesis by blast
qed

theorem no_deleted_no_truncated_witness:
  "sort_contract less_rate (insertionSort less_rate) \<and>
   app_growth \<in> set (CalculateGrowth insertionSort (config_of 10485760) log_earlier log_later
                       [''/var/log/app.log'', ''/var/log/new.log'']) \<and>
   (0 :: int64) \<le>s 10485760 \<and> sizes_nonneg log_earlier \<and> sizes_nonneg log_later \<and>
   GrowthPath app_growth \<in> dom (Files log_later) \<and>
   \<not> FinalSize app_growth <s InitialSize app_growth"
proof -
  have mem: "app_growth \<in> set (CalculateGrowth insertionSort (config_of 10485760)
               log_earlier log_later [''/var/log/app.log'', ''/var/log/new.log''])"
    by (simp add: CalculateGrowth_log)
  have thr: "(10485760 :: int64) = ThresholdBytes (config_of 10485760)"
    by (simp add: config_of_def)
  have pos: "(0 :: int64) \<le>s 10485760"
    by (simp add: word_sle_eq)
  have A: "sizes_nonneg log_earlier"
    by (simp add: sizes_nonneg_def log_earlier_def regular_def word_sle_eq)
  have B: "sizes_nonneg log_later"
    by (auto simp: sizes_nonneg_def log_later_def regular_def word_sle_eq split: if_splits)
  from no_deleted_no_truncated [of insertionSort app_growth "config_of 10485760"
      log_earlier log_later "[''/var/log/app.log'', ''/var/log/new.log'']" 10485760 "[]",
      OF insertionSort_less_rate] mem thr pos A B insertionSort_less_rate
  show ?thesis by blast
qed

section \<open>C3: directory entries\<close>

lemma CompareSnapshots_no_directory:
  assumes "g \<in> set (CompareSnapshots A B T order)"
  shows "\<exists>info2. Files B (GrowthPath g) = Some info2 \<and> \<not> IsDir info2"
  using CompareSnapshots_mem [OF assms] by (rule compare_entries_not_dir)

text \<open>How a directory comes to be in a snapshot: \<open>walkDirectory\<close> sends the path of a
  symbolic link when links are followed, and \<open>os.Stat\<close> reports what the link points to.\<close>

lemma TakeSnapshot_records_directory:
  "TakeSnapshot 2 ((config_of 1024)\<lparr>FollowSymlinks := True\<rparr>) link_fs 1000000000 id
     = Some dir_later"
  by (simp add: TakeSnapshot_def config_of_def link_fs_def dir_later_def directory_def
        statFile_def Join_def Clean_def isExcluded_def numeral_2_eq_2 word_sle_eq word_sless_alt)

text \<open>
  C3. The claim asks that no entry of the diff output has a path whose \<open>FileInfo\<close> in the
  later snapshot is a directory. \<open>Scanner.CalculateGrowth\<close> does not test \<open>IsDir\<close>: with
  a threshold of 1024 bytes and a later snapshot holding the directory
  \<open>/var/log/journal\<close> of 4096 bytes that the earlier snapshot lacks, it reports the
  directory.
\<close>

theorem CalculateGrowth_reports_directory:
  "CalculateGrowth insertionSort (config_of 1024) empty_snapshot dir_later [''/var/log/journal'']
     = [dir_growth] \<and>
   map_option IsDir (Files dir_later (GrowthPath dir_growth)) = Some True"
  by (simp add: diff_eval empty_snapshot_def dir_later_def dir_growth_def)

section \<open>C9: the two diff functions compared\<close>

lemma compare_entries_no_directory:
  assumes "\<forall>path info. f2 path = Some info \<longrightarrow> \<not> IsDir info"
  shows "compare_entries t i f1 f2 p = growth_entries t i f1 f2 p"
  using assms by (cases "f2 p") (simp_all add: compare_entries_def growth_entries_def)

lemma CalculateGrowth_sorts_CompareSnapshots:
  assumes "\<forall>path info. Files B path = Some info \<longrightarrow> \<not> IsDir info"
  shows "CalculateGrowth sort_Slice config A B order =
         sort_Slice less_rate (CompareSnapshots A B (ThresholdBytes config) order)"
proof -
  have "compare_entries (ThresholdBytes config) (growth_interval A B) (Files A) (Files B) =
        growth_entries (ThresholdBytes config) (growth_interval A B) (Files A) (Files B)"
    by (rule ext) (rule compare_entries_no_directory [OF assms])
  then show ?thesis
    by (simp add: CalculateGrowth_def CompareSnapshots_def Let_def
          CalculateGrowth_loop_concat CompareSnapshots_loop_concat)
qed

text \<open>
  C9. The claim asks that \<open>Scanner.CalculateGrowth\<close> and \<open>CompareSnapshots\<close> return the
  same entries in the same order. On the log snapshots, visited in the order
  \<open>app.log\<close>, \<open>new.log\<close>, the first returns the entries by falling rate and the second in
  the order of the visit; on the snapshot with a directory the first reports the directory
  and the second reports nothing.
\<close>

theorem diff_functions_differ:
  "CalculateGrowth insertionSort (config_of 10485760) log_earlier log_later
     [''/var/log/app.log'', ''/var/log/new.log''] = [new_growth, app_growth] \<and>
   CompareSnapshots log_earlier log_later (ThresholdBytes (config_of 10485760))
     [''/var/log/app.log'', ''/var/log/new.log''] = [app_growth, new_growth] \<and>
   GrowthRate app_growth < GrowthRate new_growth \<and>
   CalculateGrowth insertionSort (config_of 1024) empty_snapshot dir_later [''/var/log/journal'']
     = [dir_growth] \<and>
   CompareSnapshots empty_snapshot dir_later (ThresholdBytes (config_of 1024)) [''/var/log/journal'']
     = []"
  by (simp add: diff_eval log_earlier_def log_later_def app_growth_def new_growth_def
        empty_snapshot_def dir_later_def dir_growth_def)

section \<open>C2: the order of the reported entries\<close>

lemma mset_concat_map:
  "mset (concat (map f xs)) = (\<Sum>x \<in># mset xs. mset (f x))"
  by (induction xs) simp_all

lemma range_order_mset:
  assumes "range_order m order1" and "range_order m order2"
  shows "mset order1 = mset order2"
  using assms by (simp add: range_order_def set_eq_iff_mset_eq_distinct [symmetric])

lemma CalculateGrowth_mset:
  assumes "sort_contract less_rate (srt less_rate)"
  shows "mset (CalculateGrowth srt cfg A B order) =
         (\<Sum>p \<in># mset order.
            mset (growth_entries (ThresholdBytes cfg) (growth_interval A B) (Files A) (Files B) p))"
  using assms
  by (simp add: CalculateGrowth_def Let_def sort_contract_def CalculateGrowth_loop_concat
        mset_concat_map)

lemma CalculateGrowth_sorted:
  assumes "sort_contract less_rate (srt less_rate)"
  shows "sorted_wrt (\<lambda>a b. GrowthRate b \<le> GrowthRate a) (CalculateGrowth srt cfg A B order)"
proof -
  have "(\<lambda>a b. \<not> less_rate b a) = (\<lambda>a b. GrowthRate b \<le> GrowthRate a)"
    by (intro ext) (auto simp: less_rate_def)
  with assms show ?thesis
    by (simp add: CalculateGrowth_def Let_def sort_contract_def)
qed

text \<open>Two lists with the same elements, both falling in a key that no two elements
  share, are the same list.\<close>

lemma falling_distinct_unique:
  fixes key :: "'a \<Rightarrow> 'b::linorder"
  assumes xs: "sorted_wrt (\<lambda>a b. key b \<le> key a) xs"
    and ys: "sorted_wrt (\<lambda>a b. key b \<le> key a) ys"
    and same: "mset xs = mset ys"
    and dist: "distinct (map key xs)"
  shows "xs = ys"
proof -
  have mk: "mset (map key xs) = mset (map key ys)"
    using same by simp
  then have dist': "distinct (map key ys)"
    using dist mset_eq_imp_distinct_iff by blast
  have "sorted (rev (map key xs))" "sorted (rev (map key ys))"
    using xs ys by (simp_all add: sorted_wrt_rev sorted_wrt_map)
  moreover have "set (rev (map key xs)) = set (rev (map key ys))"
    using mk mset_eq_setD by fastforce
  ultimately have "rev (map key xs) = rev (map key ys)"
    using dist dist' by (intro sorted_distinct_set_unique) simp_all
  then have keys: "map key xs = map key ys" by simp
  have "set xs = set ys" using same by (rule mset_eq_setD)
  moreover have "inj_on key (set xs)"
    using dist by (simp add: distinct_map)
  ultimately have "inj_on key (set xs \<union> set ys)" by simp
  with keys show ?thesis by (simp add: inj_on_map_eq_map)
qed

theorem growth_order_counterexample:
  "range_order (Files tie_later) [''/tmp/a'', ''/tmp/b''] \<and>
   range_order (Files tie_later) [''/tmp/b'', ''/tmp/a''] \<and>
   CalculateGrowth insertionSort (config_of 10) empty_snapshot tie_later [''/tmp/a'', ''/tmp/b'']
     = [tie_growth ''/tmp/a'', tie_growth ''/tmp/b''] \<and>
   CalculateGrowth insertionSort (config_of 10) empty_snapshot tie_later [''/tmp/b'', ''/tmp/a'']
     = [tie_growth ''/tmp/b'', tie_growth ''/tmp/a''] \<and>
   [tie_growth ''/tmp/a'', tie_growth ''/tmp/b''] \<noteq> [tie_growth ''/tmp/b'', tie_growth ''/tmp/a'']"
  by (auto simp: diff_eval range_order_def empty_snapshot_def tie_later_def tie_growth_def)

text \<open>
  C2, amended. For every pair of snapshots and every threshold, the sequence that
  \<open>Scanner.CalculateGrowth\<close> returns is sorted non-increasing by \<open>GrowthRate\<close>. Repeated
  runs on the same snapshots return the same entries, each as often, whatever order the
  map is visited in; they return them in the same order when no two reported entries
  have the same \<open>GrowthRate\<close>. (Entries of equal rate may change places from run to run.)
\<close>

theorem CalculateGrowth_order:
  assumes "sort_contract less_rate (sort_Slice less_rate)"
    and "range_order (Files B) order1"
    and "range_order (Files B) order2"
  shows "sorted_wrt (\<lambda>a b. GrowthRate b \<le> GrowthRate a)
           (CalculateGrowth sort_Slice config A B order1) \<and>
         mset (CalculateGrowth sort_Slice config A B order1) =
           mset (CalculateGrowth sort_Slice config A B order2) \<and>
         (distinct (map GrowthRate (CalculateGrowth sort_Slice config A B order1)) \<longrightarrow>
            CalculateGrowth sort_Slice config A B order1 =
            CalculateGrowth sort_Slice config A B order2)"
proof -
  let ?run1 = "CalculateGrowth sort_Slice config A B order1"
  let ?run2 = "CalculateGrowth sort_Slice config A B order2"
  have s1: "sorted_wrt (\<lambda>a b. GrowthRate b \<le> GrowthRate a) ?run1"
    and s2: "sorted_wrt (\<lambda>a b. GrowthRate b \<le> GrowthRate a) ?run2"
    using assms(1) by (rule CalculateGrowth_sorted)+
  have same: "mset ?run1 = mset ?run2"
    using range_order_mset [OF assms(2,3)]
    by (simp add: CalculateGrowth_mset [where srt = sort_Slice, OF assms(1)])
  have "?run1 = ?run2" if "distinct (map GrowthRate ?run1)"
    using s1 s2 same that by (rule falling_distinct_unique)
  with s1 same show ?thesis by blast
qed

theorem CalculateGrowth_order_witness:
  "sort_contract less_rate (insertionSort less_rate) \<and>
   range_order (Files log_later) [''/var/log/app.log'', ''/var/log/new.log''] \<and>
   range_order (Files log_later) [''/var/log/new.log'', ''/var/log/app.log''] \<and>
   sorted_wrt (\<lambda>a b. GrowthRate b \<le> GrowthRate a)
     (CalculateGrowth insertionSort (config_of 10485760) log_earlier log_later
        [''/var/log/app.log'', ''/var/log/new.log'']) \<and>
   distinct (map GrowthRate
     (CalculateGrowth insertionSort (config_of 10485760) log_earlier log_later
        [''/var/log/app.log'', ''/var/log/new.log''])) \<and>
   CalculateGrowth insertionSort (config_of 10485760) log_earlier log_later
     [''/var/log/app.log'', ''/var/log/new.log''] =
   CalculateGrowth insertionSort (config_of 10485760) log_earlier log_later
     [''/var/log/new.log'', ''/var/log/app.log'']"
proof -
  have o1: "range_order (Files log_later) [''/var/log/app.log'', ''/var/log/new.log'']"
    and o2: "range_order (Files log_later) [''/var/log/new.log'', ''/var/log/app.log'']"
    by (auto simp: range_order_def log_later_def)
  have d: "distinct (map GrowthRate
     (CalculateGrowth insertionSort (config_of 10485760) log_earlier log_later
        [''/var/log/app.log'', ''/var/log/new.log'']))"
    by (simp add: CalculateGrowth_log new_growth_def app_growth_def)
  from CalculateGrowth_order [of insertionSort log_later
      "[''/var/log/app.log'', ''/var/log/new.log'']"
      "[''/var/log/new.log'', ''/var/log/app.log'']" "config_of 10485760" log_earlier,
      OF insertionSort_less_rate o1 o2] d o1 o2 insertionSort_less_rate
  show ?thesis by blast
qed

section \<open>C6: a process that has already exited\<close>

text \<open>The first statement of \<open>Kill\<close> returns an error when the lookup fails; on Unix the
  lookup never fails.\<close>

lemma Kill_lookup_fails:
  "\<not> FindProcess os pid 0 \<Longrightarrow> Kill k os pid = (Some (ProcessNotFound pid), [])"
  by (simp add: Kill_def)

text \<open>
  C6. For every PID whose process has already exited, so that the existence probe
  reports the process as gone, \<open>Kill(pid)\<close> returns success and never an error; it has
  tried the graceful signal and nothing else.
\<close>

theorem Kill_exited:
  assumes "exited os pid"
  shows "\<not> processExists os pid 0 \<and> fst (Kill k os pid) = None \<and>
         snd (Kill k os pid) = [(0, SIGTERM)]"
  using assms by (simp add: exited_def processExists_def Kill_def)

theorem Kill_exited_witness:
  "exited os_exited 4242 \<and> \<not> processExists os_exited 4242 0 \<and>
   Kill \<lparr>Timeout = 5000000000\<rparr> os_exited 4242 = (None, [(0, SIGTERM)])"
proof -
  have gone: "exited os_exited 4242"
    by (simp add: exited_def os_exited_def)
  from Kill_exited [OF gone, of "\<lparr>Timeout = 5000000000\<rparr>"] gone
  show ?thesis by (simp add: prod_eq_iff)
qed

section \<open>C7: the force-kill signal\<close>

lemma poll_done_None:
  assumes "\<forall>u \<le> deadline. processExists os pid u"
  shows "poll_done os pid deadline t = None"
  using assms
proof (induction os pid deadline t rule: poll_done.induct)
  case (1 os pid deadline t)
  show ?case
  proof (cases "deadline < t")
    case True
    then show ?thesis by (simp add: poll_done.simps)
  next
    case False
    with "1.prems" have ex: "processExists os pid t" by simp
    from "1.IH" [OF False] ex "1.prems"
    have "poll_done os pid deadline (t + 100000000) = None" by simp
    with False ex show ?thesis by (simp add: poll_done.simps [of os pid deadline t])
  qed
qed

lemma poll_done_Some:
  assumes "t + n * 100000000 < deadline" and "\<not> processExists os pid (t + n * 100000000)"
  shows "\<exists>u < deadline. poll_done os pid deadline t = Some u"
  using assms
proof (induction n arbitrary: t)
  case 0
  then show ?case by (simp add: poll_done.simps [of os pid deadline t])
next
  case (Suc n)
  from Suc.prems have lt: "t < deadline" by simp
  show ?case
  proof (cases "processExists os pid t")
    case False
    with lt show ?thesis by (simp add: poll_done.simps [of os pid deadline t])
  next
    case True
    from Suc.prems have "(t + 100000000) + n * 100000000 < deadline"
      and "\<not> processExists os pid ((t + 100000000) + n * 100000000)"
      by (simp_all add: algebra_simps)
    from Suc.IH [OF this] True lt show ?thesis
      by (simp add: poll_done.simps [of os pid deadline t])
  qed
qed

lemma Kill_timeout_sent: "snd (Kill_timeout os pid deadline) = [(0, SIGTERM), (deadline, SIGKILL)]"
  by (simp add: Kill_timeout_def Let_def split: option.splits signal_error.splits)

lemma Kill_sent_cases:
  "snd (Kill k os pid) = [] \<or> snd (Kill k os pid) = [(0, SIGTERM)] \<or>
   snd (Kill k os pid) = [(0, SIGTERM), (timer k, SIGKILL)]"
  by (simp add: Kill_def Kill_timeout_sent split: option.splits signal_error.splits)

theorem force_kill_after_exit_counterexample:
  "\<not> processExists os_late 4242 120000000 \<and>
   120000000 < timer \<lparr>Timeout = 150000000\<rparr> \<and>
   Kill \<lparr>Timeout = 150000000\<rparr> os_late 4242 = (None, [(0, SIGTERM), (150000000, SIGKILL)])"
  by (simp add: Kill_def Kill_timeout_def processExists_def os_late_def timer_def
        poll_done.simps word_sle_eq)

text \<open>
  C7, amended. \<open>Kill(pid)\<close> sends the force-kill signal at most once, and only at the
  instant the timer fires, which is not before the configured timeout has elapsed. For a
  PID whose process stays alive through the graceful phase it sends it exactly once. It
  sends none when one of the probes made every 100 milliseconds before the timer fires
  finds the process gone. (A process that exits within the timeout but after the last
  such probe is still sent the signal.)
\<close>

theorem Kill_force_kill_once:
  "(\<forall>e \<in> set (snd (Kill k os pid)). snd e = SIGKILL \<longrightarrow> fst e = timer k) \<and>
   sint (Timeout k) \<le> int (timer k) \<and>
   length (filter (\<lambda>e. snd e = SIGKILL) (snd (Kill k os pid))) \<le> 1 \<and>
   (FindProcess os pid 0 \<and> Signal os pid SIGTERM 0 = None \<and>
    (\<forall>t \<le> timer k. processExists os pid t) \<longrightarrow>
      snd (Kill k os pid) = [(0, SIGTERM), (timer k, SIGKILL)]) \<and>
   ((\<exists>n. n * 100000000 < timer k \<and> \<not> processExists os pid (n * 100000000)) \<longrightarrow>
      SIGKILL \<notin> snd ` set (snd (Kill k os pid)))"
proof (intro conjI impI)
  show "\<forall>e \<in> set (snd (Kill k os pid)). snd e = SIGKILL \<longrightarrow> fst e = timer k"
    using Kill_sent_cases [of k os pid] by auto
  show "sint (Timeout k) \<le> int (timer k)"
    by (simp add: timer_def word_sle_eq)
  show "length (filter (\<lambda>e. snd e = SIGKILL) (snd (Kill k os pid))) \<le> 1"
    using Kill_sent_cases [of k os pid] by auto
next
  assume "FindProcess os pid 0 \<and> Signal os pid SIGTERM 0 = None \<and>
          (\<forall>t \<le> timer k. processExists os pid t)"
  then have "FindProcess os pid 0" "Signal os pid SIGTERM 0 = None"
    and "poll_done os pid (timer k) 0 = None"
    by (simp_all add: poll_done_None)
  then show "snd (Kill k os pid) = [(0, SIGTERM), (timer k, SIGKILL)]"
    by (simp add: Kill_def Kill_timeout_sent)
next
  assume "\<exists>n. n * 100000000 < timer k \<and> \<not> processExists os pid (n * 100000000)"
  then obtain n where "0 + n * 100000000 < timer k"
    and "\<not> processExists os pid (0 + n * 100000000)"
    by auto
  from poll_done_Some [OF this] obtain u where
    u: "u < timer k" "poll_done os pid (timer k) 0 = Some u"
    by blast
  then have "snd (Kill k os pid) = [] \<or> snd (Kill k os pid) = [(0, SIGTERM)]"
    by (simp add: Kill_def split: option.splits signal_error.splits)
  then show "SIGKILL \<notin> snd ` set (snd (Kill k os pid))"
    by auto
qed

theorem Kill_force_kill_once_witness:
  "FindProcess os_stubborn 4242 0 \<and> Signal os_stubborn 4242 SIGTERM 0 = None \<and>
   processExists os_stubborn 4242 0 \<and> processExists os_stubborn 4242 300000000 \<and>
   timer \<lparr>Timeout = 300000000\<rparr> = 300000000 \<and>
   snd (Kill \<lparr>Timeout = 300000000\<rparr> os_stubborn 4242)
     = [(0, SIGTERM), (timer \<lparr>Timeout = 300000000\<rparr>, SIGKILL)] \<and>
   (2 :: nat) * 100000000 < timer \<lparr>Timeout = 300000000\<rparr> \<and>
   \<not> processExists os_late 4242 (2 * 100000000) \<and>
   SIGKILL \<notin> snd ` set (snd (Kill \<lparr>Timeout = 300000000\<rparr> os_late 4242))"
proof -
  have t: "timer \<lparr>Timeout = 300000000\<rparr> = 300000000"
    by (simp add: timer_def word_sle_eq)
  have alive: "FindProcess os_stubborn 4242 0 \<and> Signal os_stubborn 4242 SIGTERM 0 = None \<and>
     (\<forall>t \<le> timer \<lparr>Timeout = 300000000\<rparr>. processExists os_stubborn 4242 t)"
    by (simp add: os_stubborn_def processExists_def)
  have gone: "(2 :: nat) * 100000000 < timer \<lparr>Timeout = 300000000\<rparr> \<and>
     \<not> processExists os_late 4242 (2 * 100000000)"
    by (simp add: t os_late_def processExists_def)
  have probes: "processExists os_stubborn 4242 0 \<and> processExists os_stubborn 4242 300000000"
    by (simp add: os_stubborn_def processExists_def)
  from Kill_force_kill_once [of "\<lparr>Timeout = 300000000\<rparr>" os_stubborn 4242]
    Kill_force_kill_once [of "\<lparr>Timeout = 300000000\<rparr>" os_late 4242] t alive gone probes
  show ?thesis by blast
qed

section \<open>C8: the two tiers of service resolution\<close>

lemma match_serviceNames_cases:
  "match_serviceNames r comm names = [] \<or>
   match_serviceNames r comm names = comm @ ''.service'' \<and>
   (\<exists>svc \<in> set names. Contains (ToLower (Map_ToLower r) comm) svc)"
  by (induction names) auto

lemma getServiceNameFromComm_matched:
  assumes "getServiceNameFromComm r p \<noteq> []"
  shows "\<exists>data. ReadFile_comm r p = Some data \<and>
           getServiceNameFromComm r p = TrimSpace data @ ''.service'' \<and>
           (\<exists>svc \<in> set serviceNames. Contains (ToLower (Map_ToLower r) (TrimSpace data)) svc)"
proof (cases "ReadFile_comm r p")
  case None
  with assms show ?thesis by (simp add: getServiceNameFromComm_def)
next
  case (Some data)
  with assms match_serviceNames_cases [of r "TrimSpace data" serviceNames]
  show ?thesis by (auto simp: getServiceNameFromComm_def)
qed

lemma tree_result_step:
  assumes "parent_step r p q" and "tree_result r pid q res"
  shows "tree_result r pid p res"
proof (cases res)
  case (Inl e)
  with assms(2) show ?thesis by (simp add: tree_result_def)
next
  case (Inr info)
  with assms(2) have "(parent_step r)\<^sup>*\<^sup>* q (MainPID info)"
    by (simp add: tree_result_def)
  with assms(1) have "(parent_step r)\<^sup>*\<^sup>* p (MainPID info)"
    by (rule converse_rtranclp_into_rtranclp)
  with Inr assms(2) show ?thesis by (auto simp: tree_result_def)
qed

lemma resolveFromProcessTree_loop_result:
  assumes run: "resolveFromProcessTree_loop r0 pid0 cur0 = Some res0"
  shows "tree_result r0 pid0 cur0 res0"
proof (rule resolveFromProcessTree_loop.raw_induct
         [where P = "\<lambda>r pid cur res. tree_result r pid cur res", OF _ run], goal_cases)
  case (1 loop r pid currentPID res)
  note IH = "1"(1) and body = "1"(2)
  show ?case
  proof (cases "1 <s currentPID")
    case False
    with body show ?thesis by (auto simp: tree_result_def)
  next
    case True
    note gt = this
    show ?thesis
    proof (cases "getServiceNameFromComm r currentPID = []")
      case False
      with gt body show ?thesis by (auto simp: tree_result_def Let_def)
    next
      case True
      note empty = this
      show ?thesis
      proof (cases "getParentPID r currentPID")
        case None
        with gt empty body show ?thesis by (auto simp: tree_result_def)
      next
        case (Some parentPID)
        show ?thesis
        proof (cases "parentPID \<le>s 1")
          case True
          with gt empty Some body show ?thesis by (auto simp: tree_result_def)
        next
          case False
          with gt empty Some body have "loop r pid parentPID = Some res" by simp
          then have "tree_result r pid parentPID res" by (rule IH)
          moreover from gt empty Some False have "parent_step r currentPID parentPID"
            by (simp add: parent_step_def)
          ultimately show ?thesis by (rule tree_result_step [rotated])
        qed
      qed
    qed
  qed
qed

lemma resolveFromProcessTree_loop_returns:
  assumes "chain_ends r n p"
  shows "\<exists>res. resolveFromProcessTree_loop r pid p = Some res"
  using assms
proof (induction n arbitrary: p)
  case 0
  then show ?case
    by (subst resolveFromProcessTree_loop.simps)
       (auto simp: Let_def word_sle_eq word_sless_alt split: option.splits)
next
  case (Suc n)
  show ?case
  proof (cases "chain_ends r 0 p")
    case True
    then show ?thesis
      by (subst resolveFromProcessTree_loop.simps)
         (auto simp: Let_def word_sle_eq word_sless_alt split: option.splits)
  next
    case False
    with Suc.prems obtain q where q: "getParentPID r p = Some q" "chain_ends r n q"
      by (auto split: option.splits)
    from Suc.IH [OF q(2)] obtain res where "resolveFromProcessTree_loop r pid q = Some res" ..
    with q(1) False show ?thesis
      by (subst resolveFromProcessTree_loop.simps)
         (auto simp: Let_def word_sle_eq word_sless_alt split: option.splits)
  qed
qed

text \<open>The resolver on the concrete machine.\<close>

lemma ResolveService_python:
  "ResolveService python_proc 4243 =
     Some (Inr \<lparr>Unit = ''python3.service'', Status = ''unknown (fallback)'', MainPID = 4242,
                 StartTime = 0, Description = []\<rparr>, [ProcessTree])"
  by code_simp

theorem ResolveService_unit_counterexample:
  "ResolveService python_proc 4243 =
     Some (Inr \<lparr>Unit = ''python3.service'', Status = ''unknown (fallback)'', MainPID = 4242,
                 StartTime = 0, Description = []\<rparr>, [ProcessTree]) \<and>
   map_option TrimSpace (ReadFile_comm python_proc 4242) = Some ''python3'' \<and>
   matched_name python_proc ''python3'' serviceNames = Some ''python'' \<and>
   ''python3.service'' \<noteq> ''python'' @ ''.service''"
  by code_simp

text \<open>
  C8, amended. \<open>ResolveService(pid)\<close> calls the ancestor-chain fallback if and only if
  tier 1 is \<open>Unavailable\<close> (no connection to the service manager) or \<open>NotFound\<close> (the
  manager's query for the unit of the PID fails); when tier 1 resolves, its answer is
  returned. When tier 2 resolves, the returned \<open>ServiceInfo\<close> has
  \<open>Status = "unknown (fallback)"\<close>; its \<open>MainPID\<close> is the first process on the chain that
  starts at the PID and goes from parent to parent, all above 1, whose lower-cased command
  name contains a name of the catalogue; and its \<open>Unit\<close> is that process's command name,
  as read from \<open>/proc\<close> and trimmed, followed by \<open>.service\<close>. If neither tier resolves,
  the error names the PID that was asked for. The call returns whenever the walk along the
  parents ends.
\<close>

theorem ResolveService_tiers:
  "(ResolveService r pid = Some (res, tiers) \<longrightarrow>
      (ProcessTree \<in> set tiers \<longleftrightarrow> tier1 r pid = Unavailable \<or> tier1 r pid = NotFound) \<and>
      (tier1 r pid = Resolved \<longrightarrow>
         tiers = [Systemd] \<and> map_option Inr (resolveWithSystemd r pid) = Some res) \<and>
      (\<forall>info. res = Inr info \<and> ProcessTree \<in> set tiers \<longrightarrow>
         Status info = ''unknown (fallback)'' \<and>
         (parent_step r)\<^sup>*\<^sup>* pid (MainPID info) \<and> 1 <s MainPID info \<and>
         (\<exists>data. ReadFile_comm r (MainPID info) = Some data \<and>
            Unit info = TrimSpace data @ ''.service'' \<and>
            (\<exists>svc \<in> set serviceNames.
               Contains (ToLower (Map_ToLower r) (TrimSpace data)) svc))) \<and>
      (\<forall>e. res = Inl e \<longrightarrow> e = CouldNotResolve pid)) \<and>
   (chain_ends r n pid \<longrightarrow> ResolveService r pid \<noteq> None)"
proof (intro conjI impI)
  assume run: "ResolveService r pid = Some (res, tiers)"
  show "ProcessTree \<in> set tiers \<longleftrightarrow> tier1 r pid = Unavailable \<or> tier1 r pid = NotFound"
    using run
    by (auto simp: ResolveService_def tier1_def resolveWithSystemd_def
          split: if_splits option.splits)
  have tree: "tree_result r pid pid res" if "ProcessTree \<in> set tiers"
  proof -
    from run that have "resolveFromProcessTree_loop r pid pid = Some res"
      by (auto simp: ResolveService_def resolveFromProcessTree_def
            split: if_splits option.splits)
    then show ?thesis by (rule resolveFromProcessTree_loop_result)
  qed
  show "\<forall>info. res = Inr info \<and> ProcessTree \<in> set tiers \<longrightarrow>
         Status info = ''unknown (fallback)'' \<and>
         (parent_step r)\<^sup>*\<^sup>* pid (MainPID info) \<and> 1 <s MainPID info \<and>
         (\<exists>data. ReadFile_comm r (MainPID info) = Some data \<and>
            Unit info = TrimSpace data @ ''.service'' \<and>
            (\<exists>svc \<in> set serviceNames.
               Contains (ToLower (Map_ToLower r) (TrimSpace data)) svc))"
  proof (intro allI impI)
    fix info assume a: "res = Inr info \<and> ProcessTree \<in> set tiers"
    with tree have s: "Status info = ''unknown (fallback)''"
      and c: "(parent_step r)\<^sup>*\<^sup>* pid (MainPID info)" and m: "1 <s MainPID info"
      and u: "Unit info = getServiceNameFromComm r (MainPID info)"
      and ne: "getServiceNameFromComm r (MainPID info) \<noteq> []"
      by (auto simp: tree_result_def)
    from getServiceNameFromComm_matched [OF ne] s c m u
    show "Status info = ''unknown (fallback)'' \<and>
         (parent_step r)\<^sup>*\<^sup>* pid (MainPID info) \<and> 1 <s MainPID info \<and>
         (\<exists>data. ReadFile_comm r (MainPID info) = Some data \<and>
            Unit info = TrimSpace data @ ''.service'' \<and>
            (\<exists>svc \<in> set serviceNames.
               Contains (ToLower (Map_ToLower r) (TrimSpace data)) svc))"
      by auto
  qed
  show "\<forall>e. res = Inl e \<longrightarrow> e = CouldNotResolve pid"
  proof (intro allI impI)
    fix e assume e: "res = Inl e"
    have "ProcessTree \<in> set tiers"
      using run e
      by (auto simp: ResolveService_def split: if_splits option.splits)
    from tree [OF this] e show "e = CouldNotResolve pid"
      by (simp add: tree_result_def)
  qed
next
  assume "ResolveService r pid = Some (res, tiers)" and "tier1 r pid = Resolved"
  then show "tiers = [Systemd]" and "map_option Inr (resolveWithSystemd r pid) = Some res"
    by (auto simp: ResolveService_def tier1_def resolveWithSystemd_def
          split: if_splits option.splits)
next
  assume "chain_ends r n pid"
  from resolveFromProcessTree_loop_returns [OF this, of pid]
  show "ResolveService r pid \<noteq> None"
    by (auto simp: ResolveService_def resolveFromProcessTree_def split: option.splits)
qed

theorem ResolveService_tiers_witness:
  "ResolveService python_proc 4243 =
     Some (Inr \<lparr>Unit = ''python3.service'', Status = ''unknown (fallback)'', MainPID = 4242,
                 StartTime = 0, Description = []\<rparr>, [ProcessTree]) \<and>
   chain_ends python_proc 1 4243 \<and>
   tier1 python_proc 4243 = Unavailable \<and>
   parent_step python_proc 4243 4242 \<and>
   (parent_step python_proc)\<^sup>*\<^sup>* 4243 4242 \<and>
   (\<exists>data. ReadFile_comm python_proc 4242 = Some data \<and>
      ''python3.service'' = TrimSpace data @ ''.service'') \<and>
   ResolveService python_proc 4243 \<noteq> None"
proof -
  let ?info = "\<lparr>Unit = ''python3.service'', Status = ''unknown (fallback)'', MainPID = 4242,
                 StartTime = 0, Description = []\<rparr>"
  note run = ResolveService_python
  have ends: "chain_ends python_proc 1 4243"
    by code_simp
  have step: "parent_step python_proc 4243 4242"
    unfolding parent_step_def by code_simp
  note tiers = ResolveService_tiers [of python_proc 4243 "Inr ?info" "[ProcessTree]" 1]
  from tiers run have t1: "tier1 python_proc 4243 = Unavailable \<or> tier1 python_proc 4243 = NotFound"
    by simp
  have "tier1 python_proc 4243 \<noteq> NotFound"
    by (simp add: tier1_def python_proc_def)
  with t1 have unavailable: "tier1 python_proc 4243 = Unavailable" by simp
  from tiers run have found: "(parent_step python_proc)\<^sup>*\<^sup>* 4243 (MainPID ?info) \<and>
      (\<exists>data. ReadFile_comm python_proc (MainPID ?info) = Some data \<and>
      Unit ?info = TrimSpace data @ ''.service'' \<and>
      (\<exists>svc \<in> set serviceNames.
         Contains (ToLower (Map_ToLower python_proc) (TrimSpace data)) svc))"
    by simp
  then have chain: "(parent_step python_proc)\<^sup>*\<^sup>* 4243 4242" by simp
  from found have unit: "\<exists>data. ReadFile_comm python_proc 4242 = Some data \<and>
      ''python3.service'' = TrimSpace data @ ''.service''"
    by auto
  from tiers ends have returns: "ResolveService python_proc 4243 \<noteq> None"
    by blast
  from run ends unavailable step chain unit returns show ?thesis
    by (intro conjI)
qed

text \<open>White space that is not ASCII is trimmed as well, and a name that is not ASCII is
  lower-cased by the library's tables.\<close>

lemma TrimSpace_no_break_space:
  "TrimSpace ([CHR 0xC2, CHR 0xA0] @ ''nginx'' @ [CHR 0xE2, CHR 0x80, CHR 0x80, CHR 0x0A]) = ''nginx''"
  by code_simp

lemma ToLower_not_ASCII: "\<not> isASCII s \<Longrightarrow> ToLower unicode_lower s = unicode_lower s"
  by (simp add: ToLower_def)

section \<open>C10: the consistency of a snapshot\<close>

lemma collect_counters:
  "TotalSize (collect results s) =
     TotalSize s + sum_list (map Size (filter (\<lambda>info. \<not> IsDir info) results)) \<and>
   FileCount (collect results s) =
     FileCount s + of_nat (length (filter (\<lambda>info. \<not> IsDir info) results))"
  by (induction results arbitrary: s) (simp_all add: Let_def)

lemma collect_Files:
  "Files (collect results s) = Files s ++ map_of (rev (map (\<lambda>info. (Path info, info)) results))"
proof (induction results arbitrary: s)
  case Nil
  show ?case by simp
next
  case (Cons info rest)
  have "Files s ++ map_of (rev (map (\<lambda>info. (Path info, info)) rest) @ [(Path info, info)])
        = (Files s)(Path info \<mapsto> info) ++ map_of (rev (map (\<lambda>info. (Path info, info)) rest))"
    by (rule ext) (simp add: map_add_def split: option.splits)
  then show ?case by (simp add: Cons.IH Let_def)
qed

lemma collect_keys:
  assumes "Files (collect results \<lparr>Timestamp = now, Files = Map.empty, TotalSize = 0, FileCount = 0\<rparr>) k
           = Some info"
  shows "Path info = k"
proof -
  from assms have "map_of (rev (map (\<lambda>info. (Path info, info)) results)) k = Some info"
    by (simp add: collect_Files)
  then have "(k, info) \<in> set (map (\<lambda>info. (Path info, info)) results)"
    using map_of_SomeD by fastforce
  then show ?thesis by auto
qed

text \<open>When no path reaches the aggregator twice, the snapshot is consistent.\<close>

lemma collect_consistent:
  assumes dist: "distinct (map Path results)"
    and keys: "range_order
       (Files (collect results \<lparr>Timestamp = now, Files = Map.empty, TotalSize = 0, FileCount = 0\<rparr>)) keys"
  shows "snapshot_consistent
       (collect results \<lparr>Timestamp = now, Files = Map.empty, TotalSize = 0, FileCount = 0\<rparr>) keys"
proof -
  let ?s = "collect results \<lparr>Timestamp = now, Files = Map.empty, TotalSize = 0, FileCount = 0\<rparr>"
  let ?pairs = "map (\<lambda>info. (Path info, info)) results"
  have fst_pairs: "map fst ?pairs = map Path results"
    by (simp add: comp_def)
  have files: "Files ?s = map_of ?pairs"
  proof -
    have "map fst (rev ?pairs) = rev (map Path results)"
      by (simp add: rev_map comp_def)
    then have "distinct (map fst (rev ?pairs))"
      using dist by simp
    moreover have "distinct (map fst ?pairs)"
      using dist by (simp add: comp_def)
    ultimately have "map_of (rev ?pairs) = map_of ?pairs"
      by (intro map_of_inject_set [THEN iffD2]) simp_all
    then show ?thesis by (simp add: collect_Files)
  qed
  have look: "Files ?s (Path info) = Some info" if "info \<in> set results" for info
  proof -
    from that have "(Path info, info) \<in> set ?pairs" by auto
    moreover have "distinct (map fst ?pairs)" using dist by (simp add: comp_def)
    ultimately show ?thesis by (simp add: files)
  qed
  have "dom (Files ?s) = Path ` set results"
    by (simp add: files dom_map_of_conv_image_fst image_image)
  with keys have "distinct keys" "set keys = set (map Path results)"
    by (simp_all add: range_order_def)
  with dist have mk: "mset keys = mset (map Path results)"
    using set_eq_iff_mset_eq_distinct [of keys "map Path results"] by blast
  have mf: "mset (List.map_filter f ks) = {#y \<in># image_mset (\<lambda>k. the (f k)) (filter_mset (\<lambda>k. f k \<noteq> None) (mset ks)). True#}"
    for f :: "string \<Rightarrow> FileInfo option" and ks
    by (induction ks) (auto split: option.splits)
  have "mset (List.map_filter (Files ?s) keys)
        = image_mset (\<lambda>k. the (Files ?s k)) (filter_mset (\<lambda>k. Files ?s k \<noteq> None) (mset keys))"
    by (simp add: mf)
  also have "\<dots> = image_mset (\<lambda>k. the (Files ?s k))
                     (filter_mset (\<lambda>k. Files ?s k \<noteq> None) (image_mset Path (mset results)))"
    by (simp add: mk)
  also have "\<dots> = mset results"
  proof -
    have "filter_mset (\<lambda>k. Files ?s k \<noteq> None) (image_mset Path (mset results))
          = image_mset Path (mset results)"
      by (rule filter_mset_eq_conv [THEN iffD2]) (auto simp: look)
    moreover have "image_mset (\<lambda>k. the (Files ?s k)) (image_mset Path (mset results))
          = mset results"
    proof -
      have "image_mset (\<lambda>info. the (Files ?s (Path info))) (mset results)
            = image_mset (\<lambda>info. info) (mset results)"
        by (rule image_mset_cong) (simp add: look)
      then show ?thesis by (simp add: multiset.map_comp comp_def)
    qed
    ultimately show ?thesis by simp
  qed
  finally have all: "mset (List.map_filter (Files ?s) keys) = mset results" .
  then have reg: "mset (regular_files ?s keys) = mset (filter (\<lambda>info. \<not> IsDir info) results)"
    by (simp add: regular_files_def)
  from reg have "sum_mset (mset (map Size (regular_files ?s keys)))
        = sum_mset (mset (map Size (filter (\<lambda>info. \<not> IsDir info) results)))"
    by (simp only: mset_map)
  then have total: "sum_list (map Size (regular_files ?s keys))
        = sum_list (map Size (filter (\<lambda>info. \<not> IsDir info) results))"
    by (simp only: sum_mset_sum_list)
  from reg have "size (mset (regular_files ?s keys))
        = size (mset (filter (\<lambda>info. \<not> IsDir info) results))"
    by (simp only:)
  then have count: "length (regular_files ?s keys)
        = length (filter (\<lambda>info. \<not> IsDir info) results)"
    by (simp only: size_mset)
  have paths: "list_all (\<lambda>k. case Files ?s k of None \<Rightarrow> True | Some info \<Rightarrow> Path info = k) keys"
    unfolding list_all_iff
  proof
    fix k assume "k \<in> set keys"
    show "case Files ?s k of None \<Rightarrow> True | Some info \<Rightarrow> Path info = k"
    proof (cases "Files ?s k")
      case None
      then show ?thesis by simp
    next
      case (Some info)
      from collect_keys [OF this] Some show ?thesis by simp
    qed
  qed
  have "TotalSize ?s = sum_list (map Size (filter (\<lambda>info. \<not> IsDir info) results))"
    and "FileCount ?s = of_nat (length (filter (\<lambda>info. \<not> IsDir info) results))"
    using collect_counters [of results "\<lparr>Timestamp = now, Files = Map.empty, TotalSize = 0, FileCount = 0\<rparr>"]
    by simp_all
  with total count paths show ?thesis
    by (simp only: snapshot_consistent_def)
qed

text \<open>
  C10. The claim asks that in every snapshot \<open>TakeSnapshot\<close> produces, \<open>TotalSize\<close> is
  the sum of the sizes of the non-directory entries of \<open>Files\<close> and \<open>FileCount\<close> their
  number. With \<open>/tmp\<close> configured twice, the file \<open>/tmp/a\<close> of 5 bytes reaches the
  aggregator twice: it is stored once and counted twice, so \<open>Files\<close> holds one file of
  5 bytes while \<open>TotalSize\<close> is 10 and \<open>FileCount\<close> is 2.
\<close>

theorem TakeSnapshot_counts_twice:
  "TakeSnapshot 2 (New twice_config) tmp_fs 0 id = Some twice_snapshot \<and>
   range_order (Files twice_snapshot) [''/tmp/a''] \<and>
   TotalSize twice_snapshot = 10 \<and>
   sum_list (map Size (regular_files twice_snapshot [''/tmp/a''])) = 5 \<and>
   FileCount twice_snapshot = 2 \<and>
   length (regular_files twice_snapshot [''/tmp/a'']) = 1 \<and>
   \<not> snapshot_consistent twice_snapshot [''/tmp/a'']"
  by (simp add: TakeSnapshot_def New_def twice_config_def tmp_fs_def twice_snapshot_def
        regular_def statFile_def Join_def Clean_def isExcluded_def numeral_2_eq_2 word_sle_eq
        word_sless_alt range_order_def regular_files_def snapshot_consistent_def)

end
